theory Spec2Isabelle
  imports Main "HOL-Library.Word"
begin

unbundle bit_operations_syntax

section \<open>The stream: a regular file behind io.ReadWriteSeeker\<close>

text \<open>
  The functions of flac.go work on an \<^verbatim>\<open>io.ReadWriteSeeker\<close>; the command-line tool
  hands them an \<^verbatim>\<open>*os.File\<close>. The model is a regular file: its bytes and its cursor.
  Seeking before the start fails and leaves the cursor alone (\<^verbatim>\<open>os.File.Seek\<close> then
  returns 0 and an error), seeking past the end is allowed, a read at or past the end
  returns no byte and \<^verbatim>\<open>io.EOF\<close>, a read of zero bytes returns nothing and no error,
  and a write past the end fills the hole with zero bytes. Go's \<^verbatim>\<open>int\<close> and
  \<^verbatim>\<open>int64\<close> are modelled as unbounded integers: file positions stay far below
  \<open>2^63\<close>.
\<close>

type_synonym byte = "8 word"

record osfile =
  content :: "byte list"
  pos :: nat

datatype whence = SeekStart | SeekCurrent | SeekEnd

text \<open>
  The errors: \<^verbatim>\<open>io.EOF\<close>, \<^verbatim>\<open>io.ErrUnexpectedEOF\<close>, the error of a seek to a negative
  position, \<^verbatim>\<open>errors.New("expected 'fLaC'")\<close> and
  \<^verbatim>\<open>errors.New("cannot write tags without padding")\<close>.
\<close>

datatype error =
    EOF
  | ErrUnexpectedEOF
  | ErrInvalidSeek
  | ErrExpectedFLAC
  | ErrNoPadding

definition file_seek :: "osfile \<Rightarrow> int \<Rightarrow> whence \<Rightarrow> (int \<times> error option) \<times> osfile" where
  "file_seek f off w =
     (let base = (case w of SeekStart \<Rightarrow> 0
                          | SeekCurrent \<Rightarrow> int (pos f)
                          | SeekEnd \<Rightarrow> int (length (content f)));
          t = base + off
      in if t < 0 then ((0, Some ErrInvalidSeek), f)
         else ((t, None), f\<lparr>pos := nat t\<rparr>))"

text \<open>\<^verbatim>\<open>rw.Read(buf)\<close> with \<open>len(buf) = k\<close>: the bytes read, the error, the file.\<close>

definition file_read :: "osfile \<Rightarrow> nat \<Rightarrow> (byte list \<times> error option) \<times> osfile" where
  "file_read f k =
     (if k = 0 then (([], None), f)
      else if length (content f) \<le> pos f then (([], Some EOF), f)
      else (let bs = take k (drop (pos f) (content f))
            in ((bs, None), f\<lparr>pos := pos f + length bs\<rparr>)))"

text \<open>\<^verbatim>\<open>rw.Write(b)\<close>: the number of bytes written, the error, the file.\<close>

definition file_write :: "osfile \<Rightarrow> byte list \<Rightarrow> (int \<times> error option) \<times> osfile" where
  "file_write f b =
     (if b = [] then ((0, None), f)
      else (let c = content f;
                c' = (if length c < pos f then c @ replicate (pos f - length c) 0 else c)
            in ((int (length b), None),
                f\<lparr>content := take (pos f) c' @ b @ drop (pos f + length b) c',
                  pos := pos f + length b\<rparr>)))"

section \<open>Helpers of the package that flac.go calls\<close>

text \<open>
  The functions \<^verbatim>\<open>readBytes\<close>, \<^verbatim>\<open>readInt\<close>, \<^verbatim>\<open>readString\<close>, \<^verbatim>\<open>getBit\<close> and
  \<^verbatim>\<open>formatUintBigEndian\<close> are called by flac.go and live in a file of the package that is
  not among the sources at hand. The spec describes them as the "primitive big-endian
  integer and flag extraction from a byte-addressable, seekable stream". A Go string is a
  sequence of bytes.
\<close>

text \<open>
  Modelled from the spec: \<^verbatim>\<open>readBytes(r, n)\<close> is missing. It reads the \<open>n\<close> bytes at the
  cursor; "if malformed (short read) fail with a truncated-stream error". A short read
  consumes what is left of the stream, as \<^verbatim>\<open>io.ReadFull\<close> does, and reports
  \<^verbatim>\<open>io.EOF\<close> when nothing was left.
\<close>

definition readBytes :: "osfile \<Rightarrow> nat \<Rightarrow> (error + byte list) \<times> osfile" where
  "readBytes r n =
     (let avail = length (content r) - pos r
      in if n \<le> avail then (Inr (take n (drop (pos r) (content r))), r\<lparr>pos := pos r + n\<rparr>)
         else if avail = 0 then (Inl EOF, r)
         else (Inl ErrUnexpectedEOF, r\<lparr>pos := pos r + avail\<rparr>))"

text \<open>
  Modelled from the spec: \<^verbatim>\<open>getInt\<close> is missing. "Length is a 24-bit unsigned big-endian
  integer": the bytes are the digits of the number in base 256, most significant first.
\<close>

definition getInt :: "byte list \<Rightarrow> int" where
  "getInt b = foldl (\<lambda>n x. n * 256 + uint x) 0 b"

text \<open>Modelled from the spec: \<^verbatim>\<open>readInt(r, n)\<close> is missing. It reads \<open>n\<close> bytes as one big-endian integer.\<close>

definition readInt :: "osfile \<Rightarrow> nat \<Rightarrow> (error + int) \<times> osfile" where
  "readInt r n =
     (case readBytes r n of
        (Inl e, r') \<Rightarrow> (Inl e, r')
      | (Inr b, r') \<Rightarrow> (Inr (getInt b), r'))"

text \<open>Modelled from the spec: \<^verbatim>\<open>readString(r, n)\<close> is missing. It reads \<open>n\<close> bytes as a string.\<close>

definition readString :: "osfile \<Rightarrow> nat \<Rightarrow> (error + byte list) \<times> osfile" where
  "readString r n = readBytes r n"

text \<open>
  Modelled from the spec: \<^verbatim>\<open>getBit(b, n)\<close> is missing. "The high bit of the first header
  byte is the last-block flag": bit \<open>n\<close> of the byte, bit 0 being the lowest.
\<close>

definition getBit :: "byte \<Rightarrow> nat \<Rightarrow> bool" where
  "getBit b n = bit b n"

text \<open>
  Modelled from the spec: \<^verbatim>\<open>formatUintBigEndian(n, k)\<close> is missing. The length is encoded
  as "3 bytes big-endian". The Go function returns bytes and no error: the result is the
  \<open>k\<close> low-order bytes of \<open>n\<close>, most significant first.
\<close>

definition formatUintBigEndian :: "nat \<Rightarrow> nat \<Rightarrow> byte list" where
  "formatUintBigEndian n k = map (\<lambda>i. of_nat (n div 256 ^ i)) (rev [0..<k])"

text \<open>The conversion \<^verbatim>\<open>uint(x)\<close> of a Go \<^verbatim>\<open>int\<close> on a 64-bit platform.\<close>

definition uint_of_int :: "int \<Rightarrow> nat" where
  "uint_of_int x = nat (x mod 2 ^ 64)"

text \<open>The signature \<^verbatim>\<open>"fLaC"\<close> as bytes.\<close>

definition fLaC :: "byte list" where
  "fLaC = [0x66, 0x4C, 0x61, 0x43]"

section \<open>flac.go: block types and the layout scan\<close>

definition paddingBlock :: byte where "paddingBlock = 1"
definition vorbisCommentBlock :: byte where "vorbisCommentBlock = 4"
definition pictureBlock :: byte where "pictureBlock = 6"

record flacMetaHeadersLayout =
  commentBlockPos :: int
  commentBlockLen :: int
  paddingBlockPos :: int
  paddingBlockLen :: int

text \<open>The zero value \<^verbatim>\<open>flacMetaHeadersLayout{}\<close>.\<close>

definition emptyLayout :: flacMetaHeadersLayout where
  "emptyLayout = \<lparr>commentBlockPos = 0, commentBlockLen = 0,
                  paddingBlockPos = 0, paddingBlockLen = 0\<rparr>"

text \<open>
  The loop of \<^verbatim>\<open>findBlocks\<close>, with its variables \<open>bi\<close> and \<open>commentBlockIndex\<close>.
  The result \<open>Some e\<close> is the \<^verbatim>\<open>return err\<close> inside the loop; \<open>None\<close> is leaving
  the loop, by \<^verbatim>\<open>break forLoop\<close> or after the last block.
\<close>

function findBlocks_loop ::
  "flacMetaHeadersLayout \<Rightarrow> int \<Rightarrow> int \<Rightarrow> osfile \<Rightarrow> error option \<times> flacMetaHeadersLayout \<times> osfile"
where
  "findBlocks_loop m bi commentBlockIndex r =
     (case readBytes r 1 of
        (Inl e, r1) \<Rightarrow> (Some e, m, r1)
      | (Inr blockHeader, r1) \<Rightarrow>
          (let last = getBit (hd blockHeader) 7;
               h = (if last then hd blockHeader XOR push_bit 7 1 else hd blockHeader)
           in case readInt r1 3 of
                (Inl e, r2) \<Rightarrow> (Some e, m, r2)
              | (Inr blockLen, r2) \<Rightarrow>
                  if h = vorbisCommentBlock then
                    (let m' = m\<lparr>commentBlockLen := blockLen,
                                 commentBlockPos := fst (fst (file_seek r2 0 SeekCurrent)) - 4\<rparr>;
                         r3 = snd (file_seek r2 blockLen SeekCurrent)
                     in if last then (None, m', r3)
                        else findBlocks_loop m' (bi + 1) bi r3)
                  else if h = paddingBlock \<and> bi = commentBlockIndex + 1 then
                    (None,
                     m\<lparr>paddingBlockLen := blockLen,
                       paddingBlockPos := fst (fst (file_seek r2 0 SeekCurrent)) - 4\<rparr>,
                     r2)
                  else
                    (let r3 = snd (file_seek r2 blockLen SeekCurrent)
                     in if last then (None, m, r3)
                        else findBlocks_loop m (bi + 1) commentBlockIndex r3)))"
  by pat_completeness auto

lemma readBytes_Inr:
  "readBytes r n = (Inr b, r') \<Longrightarrow> 0 < n \<Longrightarrow>
     pos r + n \<le> length (content r) \<and> r' = r\<lparr>pos := pos r + n\<rparr> \<and>
     b = take n (drop (pos r) (content r))"
  by (auto simp: readBytes_def Let_def split: if_splits)

lemma readInt_Inr:
  "readInt r n = (Inr v, r') \<Longrightarrow> 0 < n \<Longrightarrow>
     pos r + n \<le> length (content r) \<and> r' = r\<lparr>pos := pos r + n\<rparr> \<and>
     v = getInt (take n (drop (pos r) (content r)))"
  by (auto simp: readInt_def split: prod.splits sum.splits dest: readBytes_Inr)

lemma getInt_nonneg_aux: "0 \<le> n \<Longrightarrow> 0 \<le> foldl (\<lambda>n x. n * 256 + uint x) (n::int) b"
  by (induction b arbitrary: n) auto

lemma getInt_nonneg: "0 \<le> getInt b"
  by (simp add: getInt_def getInt_nonneg_aux)

lemma seek_forward:
  "0 \<le> off \<Longrightarrow> snd (file_seek r off SeekCurrent) = r\<lparr>pos := pos r + nat off\<rparr>"
  by (simp add: file_seek_def Let_def nat_add_distrib)

lemma findBlocks_step:
  assumes "readBytes r 1 = (Inr bh, r1)" and "readInt r1 3 = (Inr bl, r2)"
  shows "snd (file_seek r2 bl SeekCurrent) = r\<lparr>pos := pos r + 4 + nat bl\<rparr>"
    and "pos r < length (content r)"
proof -
  from readBytes_Inr [OF assms(1)] have r1: "r1 = r\<lparr>pos := pos r + 1\<rparr>"
    and lt: "pos r + 1 \<le> length (content r)" by simp_all
  from readInt_Inr [OF assms(2)] have r2: "r2 = r1\<lparr>pos := pos r1 + 3\<rparr>"
    and bl: "bl = getInt (take 3 (drop (pos r1) (content r1)))" by simp_all
  have "0 \<le> bl" unfolding bl by (rule getInt_nonneg)
  then show "snd (file_seek r2 bl SeekCurrent) = r\<lparr>pos := pos r + 4 + nat bl\<rparr>"
    by (simp add: seek_forward r1 r2)
  from lt show "pos r < length (content r)" by simp
qed

termination findBlocks_loop
proof (relation "measure (\<lambda>(m, bi, ci, r). length (content r) - pos r)", goal_cases)
  case 1
  show ?case by simp
next
  case (2 m bi ci r x1 r1 bh last h x2 r2 bl m' r3)
  then have a: "readBytes r 1 = (Inr bh, r1)" and b: "readInt r1 3 = (Inr bl, r2)"
    by simp_all
  from 2 have "r3 = snd (file_seek r2 bl SeekCurrent)" by simp
  with findBlocks_step [OF a b] show ?case by simp
next
  case (3 m bi ci r x1 r1 bh last h x2 r2 bl r3)
  then have a: "readBytes r 1 = (Inr bh, r1)" and b: "readInt r1 3 = (Inr bl, r2)"
    by simp_all
  from 3 have "r3 = snd (file_seek r2 bl SeekCurrent)" by simp
  with findBlocks_step [OF a b] show ?case by simp
qed

declare findBlocks_loop.simps [simp del]

definition findBlocks :: "flacMetaHeadersLayout \<Rightarrow> osfile \<Rightarrow> error option \<times> flacMetaHeadersLayout \<times> osfile" where
  "findBlocks m r =
     (let originalPos = fst (fst (file_seek r 0 SeekCurrent))
      in case findBlocks_loop m 0 0 r of
           (Some e, m', r') \<Rightarrow> (Some e, m', r')
         | (None, m', r') \<Rightarrow> (None, m', snd (file_seek r' originalPos SeekStart)))"

text \<open>
  \<^verbatim>\<open>shiftPadding\<close>. The one-byte buffer starts as a zero byte and keeps it when the
  read returns nothing.
\<close>

definition shiftPadding :: "flacMetaHeadersLayout \<Rightarrow> osfile \<Rightarrow> int \<Rightarrow> osfile" where
  "shiftPadding m rw newCommentBlockLen =
     (let offset = newCommentBlockLen - commentBlockLen m;
          newPadBlockLen = paddingBlockLen m - offset;
          newPadBlockPos = paddingBlockPos m + offset;
          rw1 = snd (file_seek rw (paddingBlockPos m) SeekStart);
          rd = file_read rw1 1;
          origPadBlockHeaderByte = fst (fst rd) @ replicate (1 - length (fst (fst rd))) 0;
          rw2 = snd (file_seek (snd rd) newPadBlockPos SeekStart);
          rw3 = snd (file_write rw2 origPadBlockHeaderByte);
          blockLenBytes = formatUintBigEndian (uint_of_int newPadBlockLen) 3
      in snd (file_write rw3 blockLenBytes))"

text \<open>
  \<^verbatim>\<open>WriteFLACTags\<close>. The encoder \<^verbatim>\<open>PrepareVorbisComment\<close> is out of the scope of the
  spec and of the sources at hand: it is a parameter. The statement after
  \<^verbatim>\<open>return errors.New("cannot write tags without padding")\<close> is never reached.
\<close>

definition WriteFLACTags ::
  "('d \<Rightarrow> byte list) \<Rightarrow> osfile \<Rightarrow> 'd \<Rightarrow> error option \<times> osfile"
where
  "WriteFLACTags PrepareVorbisComment rw data =
     (case readString rw 4 of
        (Inl e, rw1) \<Rightarrow> (Some e, rw1)
      | (Inr flac, rw1) \<Rightarrow>
          if flac \<noteq> fLaC then (Some ErrExpectedFLAC, rw1)
          else
            (case findBlocks emptyLayout rw1 of
               (_, techMeta, rw2) \<Rightarrow>
                 (let preparedVorbisComment = PrepareVorbisComment data;
                      newCommentBlockLen = int (length preparedVorbisComment)
                  in if newCommentBlockLen
                          < commentBlockLen techMeta + (paddingBlockLen techMeta - 4)
                        \<and> paddingBlockLen techMeta > 0
                     then
                       (let rw3 = shiftPadding techMeta rw2 newCommentBlockLen;
                            rw4 = snd (file_seek rw3 (commentBlockPos techMeta + 1) SeekStart);
                            blockLenBytes = formatUintBigEndian (uint_of_int newCommentBlockLen) 3;
                            rw5 = snd (file_write rw4 blockLenBytes);
                            rw6 = snd (file_write rw5 preparedVorbisComment)
                        in (None, rw6))
                     else (Some ErrNoPadding, rw2))))"

section \<open>flac.go: reading\<close>

text \<open>
  \<^verbatim>\<open>readFLACMetadataBlock\<close> returns \<open>(last, err)\<close>. The payload readers
  \<^verbatim>\<open>readVorbisComment\<close> and \<^verbatim>\<open>readPictureBlock\<close> are out of scope and not among the
  sources: they are the parameters \<open>rvc\<close> and \<open>rpb\<close>, which take the metadata read so
  far and the stream.
\<close>

definition readFLACMetadataBlock ::
  "('m \<Rightarrow> osfile \<Rightarrow> error option \<times> 'm \<times> osfile) \<Rightarrow>
   ('m \<Rightarrow> osfile \<Rightarrow> error option \<times> 'm \<times> osfile) \<Rightarrow>
   'm \<Rightarrow> osfile \<Rightarrow> (bool \<times> error option) \<times> 'm \<times> osfile"
where
  "readFLACMetadataBlock rvc rpb m r =
     (case readBytes r 1 of
        (Inl e, r1) \<Rightarrow> ((False, Some e), m, r1)
      | (Inr blockHeader, r1) \<Rightarrow>
          (let last = getBit (hd blockHeader) 7;
               h = (if last then hd blockHeader XOR push_bit 7 1 else hd blockHeader)
           in case readInt r1 3 of
                (Inl e, r2) \<Rightarrow> ((last, Some e), m, r2)
              | (Inr blockLen, r2) \<Rightarrow>
                  if h = vorbisCommentBlock then
                    (case rvc m r2 of (err, m', r3) \<Rightarrow> ((last, err), m', r3))
                  else if h = pictureBlock then
                    (case rpb m r2 of (err, m', r3) \<Rightarrow> ((last, err), m', r3))
                  else
                    (case file_seek r2 blockLen SeekCurrent of
                       ((_, err), r3) \<Rightarrow> ((last, err), m, r3))))"

partial_function (option) ReadFLACTags_loop ::
  "('m \<Rightarrow> osfile \<Rightarrow> error option \<times> 'm \<times> osfile) \<Rightarrow>
   ('m \<Rightarrow> osfile \<Rightarrow> error option \<times> 'm \<times> osfile) \<Rightarrow>
   'm \<Rightarrow> osfile \<Rightarrow> ((error + 'm) \<times> osfile) option"
where
  "ReadFLACTags_loop rvc rpb m r =
     (let res = readFLACMetadataBlock rvc rpb m r;
          last = fst (fst res); err = snd (fst res); m' = fst (snd res); r' = snd (snd res)
      in if err \<noteq> None then Some (Inl (the err), r')
         else if last then Some (Inr m', r')
         else ReadFLACTags_loop rvc rpb m' r')"

declare ReadFLACTags_loop.simps [code]

text \<open>
  \<^verbatim>\<open>ReadFLACTags\<close>; \<open>m0\<close> is \<^verbatim>\<open>newMetadataVorbis()\<close>. The value \<open>None\<close> is a
  run that never returns.
\<close>

definition ReadFLACTags ::
  "('m \<Rightarrow> osfile \<Rightarrow> error option \<times> 'm \<times> osfile) \<Rightarrow>
   ('m \<Rightarrow> osfile \<Rightarrow> error option \<times> 'm \<times> osfile) \<Rightarrow>
   'm \<Rightarrow> osfile \<Rightarrow> ((error + 'm) \<times> osfile) option"
where
  "ReadFLACTags rvc rpb m0 r =
     (case readString r 4 of
        (Inl e, r1) \<Rightarrow> Some (Inl e, r1)
      | (Inr flac, r1) \<Rightarrow>
          if flac \<noteq> fLaC then Some (Inl ErrExpectedFLAC, r1)
          else ReadFLACTags_loop rvc rpb m0 r1)"

section \<open>flac.go: the file shift engine\<close>

text \<open>
  The loop of \<^verbatim>\<open>ShiftFileLeft\<close>. \<open>Some (Some e, rw)\<close> is \<^verbatim>\<open>return err\<close>,
  \<open>Some (None, rw)\<close> is the \<^verbatim>\<open>break\<close> at end of file, and \<open>None\<close> is a loop that
  never ends. The slice \<^verbatim>\<open>buf[:n]\<close> is the list of the bytes read.
\<close>

partial_function (option) ShiftFileLeft_loop :: "int \<Rightarrow> osfile \<Rightarrow> (error option \<times> osfile) option"
where
  "ShiftFileLeft_loop offset rw =
     (let s1 = file_seek rw offset SeekCurrent
      in if snd (fst s1) \<noteq> None then Some (snd (fst s1), snd s1)
         else
           (let rd = file_read (snd s1) (1024 * 1024);
                buf = fst (fst rd);
                n = int (length buf);
                err = snd (fst rd)
            in if err \<noteq> None \<and> err \<noteq> Some EOF then Some (err, snd rd)
               else if n > 0 then
                 (let s2 = file_seek (snd rd) (- (n + offset)) SeekCurrent
                  in if snd (fst s2) \<noteq> None then Some (snd (fst s2), snd s2)
                     else
                       (let w = file_write (snd s2) buf
                        in if snd (fst w) \<noteq> None then Some (snd (fst w), snd w)
                           else if err = Some EOF then Some (None, snd w)
                           else ShiftFileLeft_loop offset (snd w)))
               else if err = Some EOF then Some (None, snd rd)
               else ShiftFileLeft_loop offset (snd rd)))"

declare ShiftFileLeft_loop.simps [code]

definition ShiftFileLeft :: "osfile \<Rightarrow> int \<Rightarrow> (error option \<times> osfile) option" where
  "ShiftFileLeft rw offset =
     (let originalPosition = fst (fst (file_seek rw 0 SeekCurrent))
      in case ShiftFileLeft_loop offset rw of
           None \<Rightarrow> None
         | Some (Some e, rw') \<Rightarrow> Some (Some e, rw')
         | Some (None, rw') \<Rightarrow> Some (None, snd (file_seek rw' originalPosition SeekStart)))"

text \<open>
  \<^verbatim>\<open>ShiftFileRight\<close> returns nothing; it can panic (a slice expression out of range,
  a negative length given to \<^verbatim>\<open>make\<close>), and the file then stays as the writes made so
  far left it.
\<close>

datatype shift_result = Done osfile | Panicked osfile

text \<open>
  The loop. The slice \<open>buf\<close> is its backing array \<open>arr\<close> (of \<open>cap(buf)\<close> bytes) and
  its length \<open>bufLen64\<close>, which the source keeps equal to \<open>len(buf)\<close>.
  \<^verbatim>\<open>rw.Read(buf)\<close> overwrites the first bytes of the array with what it read.
\<close>

partial_function (option) ShiftFileRight_loop ::
  "int \<Rightarrow> int \<Rightarrow> byte list \<Rightarrow> int \<Rightarrow> bool \<Rightarrow> osfile \<Rightarrow> shift_result option"
where
  "ShiftFileRight_loop offset originalPosition arr bufLen64 stop rw =
     (let rd = file_read rw (nat bufLen64);
          arr1 = fst (fst rd) @ drop (length (fst (fst rd))) arr;
          rw1 = snd (file_seek (snd rd) (- bufLen64 + offset) SeekCurrent);
          rw2 = snd (file_write rw1 (take (nat bufLen64) arr1))
      in if stop then
           (let rw3 = snd (file_seek rw2 (- bufLen64 - offset) SeekCurrent)
            in if offset < 0 \<or> int (length arr1) < offset then Some (Panicked rw3)
               else
                 (let arr2 = replicate (nat offset) 0x5F @ drop (nat offset) arr1
                  in Some (Done (snd (file_write rw3 (take (nat offset) arr2))))))
         else
           (let s = file_seek rw2 (- bufLen64 - offset) SeekCurrent;
                curPos = fst (fst s)
            in if curPos - originalPosition \<ge> bufLen64 then
                 ShiftFileRight_loop offset originalPosition arr1 bufLen64 stop
                   (snd (file_seek (snd s) (- bufLen64) SeekCurrent))
               else
                 (let rw4 = snd (file_seek (snd s) (- (curPos - originalPosition)) SeekCurrent)
                  in if curPos - originalPosition < 0 then Some (Panicked rw4)
                     else ShiftFileRight_loop offset originalPosition arr1
                            (curPos - originalPosition) True rw4)))"

declare ShiftFileRight_loop.simps [code]

definition ShiftFileRight :: "osfile \<Rightarrow> int \<Rightarrow> shift_result option" where
  "ShiftFileRight rw offset =
     (let originalPosition = fst (fst (file_seek rw 0 SeekCurrent));
          e = file_seek rw 0 SeekEnd;
          fileSize = fst (fst e);
          rw1 = snd (file_seek (snd e) originalPosition SeekStart);
          small = (fileSize - originalPosition < 100);
          bufSize = (if small then fileSize - originalPosition else 100);
          stop = small
      in if bufSize < 0 then Some (Panicked rw1)
         else
           (let buf = replicate (nat bufSize) 0;
                bufLen64 = int (length buf);
                rw2 = snd (file_seek rw1 (- bufLen64) SeekEnd)
            in case ShiftFileRight_loop offset originalPosition buf bufLen64 stop rw2 of
                 None \<Rightarrow> None
               | Some (Panicked rw') \<Rightarrow> Some (Panicked rw')
               | Some (Done rw') \<Rightarrow> Some (Done (snd (file_seek rw' originalPosition SeekStart)))))"

section \<open>Overwriting a range of a list\<close>

text \<open>What a write of \<open>b\<close> at an offset \<open>p\<close> within the bytes \<open>c\<close>, or at their end, makes of them.\<close>

definition overwrite :: "'a list \<Rightarrow> nat \<Rightarrow> 'a list \<Rightarrow> 'a list" where
  "overwrite c p b = take p c @ b @ drop (p + length b) c"

text \<open>
  What \<^verbatim>\<open>ShiftFileLeft\<close> with the offset \<open>k\<close> at the cursor \<open>p\<close> makes of the bytes
  \<open>c\<close>: the bytes before the cursor, the bytes from \<open>p + k\<close> on, and the last \<open>k\<close> bytes once
  more.
\<close>

definition closed_left :: "'a list \<Rightarrow> nat \<Rightarrow> nat \<Rightarrow> 'a list" where
  "closed_left c p k = take p c @ drop (p + k) c @ drop (max p (length c - k)) c"

section \<open>Sample inputs\<close>

text \<open>An encoder that returns \<open>n\<close> bytes, standing for \<^verbatim>\<open>PrepareVorbisComment\<close>.\<close>

definition sample_encoder :: "nat \<Rightarrow> byte list" where
  "sample_encoder n = replicate n 0xAA"

text \<open>
  The container of the spec's concrete scenarios: the signature, a 34-byte block of type 0,
  a comment block of length 20 at offset 42, the last block, padding of length 100, at
  offset 66, and three bytes of audio.
\<close>

definition scenario_file :: osfile where
  "scenario_file =
     \<lparr>content = fLaC @ [0, 0, 0, 34] @ replicate 34 7 @ [4, 0, 0, 20] @ replicate 20 8
                 @ [0x81, 0, 0, 100] @ replicate 100 0 @ [9, 9, 9],
      pos = 0\<rparr>"

text \<open>A container without a comment block: a block of type 0, then padding (the last block).\<close>

definition no_comment_file :: osfile where
  "no_comment_file =
     \<lparr>content = fLaC @ [0, 0, 0, 2, 7, 7] @ [0x81, 0, 0, 8] @ replicate 8 0 @ [9, 9, 9],
      pos = 0\<rparr>"

text \<open>A stream that ends after one block that is not marked as the last; the cursor is after the signature.\<close>

definition truncated_file :: osfile where
  "truncated_file = \<lparr>content = fLaC @ [0, 0, 0, 0], pos = 4\<rparr>"

text \<open>A stream that starts with \<^verbatim>\<open>"Xlac"\<close>.\<close>

definition bad_signature_file :: osfile where
  "bad_signature_file = \<lparr>content = [0x58, 0x6C, 0x61, 0x63, 0x84, 0, 0, 0], pos = 0\<rparr>"


text \<open>A comment block of length 20 at offset 4, followed by a padding block of length 0.\<close>

definition zero_padding_file :: osfile where
  "zero_padding_file =
     \<lparr>content = fLaC @ [4, 0, 0, 20] @ replicate 20 8 @ [0x81, 0, 0, 0] @ [9, 9, 9], pos = 0\<rparr>"

text \<open>A payload reader that reads nothing.\<close>

definition skip_reader :: "unit \<Rightarrow> osfile \<Rightarrow> error option \<times> unit \<times> osfile" where
  "skip_reader m r = (None, m, r)"

section \<open>Reads and seeks leave the bytes alone\<close>

lemma content_file_seek [simp]: "content (snd (file_seek f off w)) = content f"
  by (simp add: file_seek_def Let_def)

lemma content_readBytes [simp]: "content (snd (readBytes r n)) = content r"
  by (simp add: readBytes_def Let_def)

lemma readBytes_content: "readBytes r n = (a, r') \<Longrightarrow> content r' = content r"
  by (auto simp: readBytes_def Let_def split: if_splits)

lemma readInt_content: "readInt r n = (a, r') \<Longrightarrow> content r' = content r"
  by (auto simp: readInt_def split: prod.splits sum.splits dest: readBytes_content)

lemma content_readInt [simp]: "content (snd (readInt r n)) = content r"
  by (cases "readInt r n") (simp add: readInt_content)

lemma content_readString [simp]: "content (snd (readString r n)) = content r"
  by (simp add: readString_def)

lemma content_file_read [simp]: "content (snd (file_read f k)) = content f"
  by (simp add: file_read_def Let_def)

lemma findBlocks_loop_short:
  assumes "length (content r) < pos r + 4"
  shows "\<exists>e r'. findBlocks_loop m bi ci r = (Some e, m, r') \<and> content r' = content r"
proof (cases "readBytes r 1")
  case (Pair a r1)
  have c1: "content r1 = content r" using Pair by (rule readBytes_content)
  show ?thesis
  proof (cases a)
    case (Inl e)
    with Pair c1 show ?thesis by (subst findBlocks_loop.simps) simp
  next
    case (Inr bh)
    with Pair readBytes_Inr [of r 1 bh r1] have p1: "pos r1 = pos r + 1" by simp
    obtain b r2 where ri: "readInt r1 3 = (b, r2)" by (cases "readInt r1 3")
    have c2: "content r2 = content r" using readInt_content [OF ri] c1 by simp
    have "\<exists>e. b = Inl e"
    proof (cases b)
      case (Inr v)
      with ri readInt_Inr [of r1 3 v r2] p1 c1 assms show ?thesis by simp
    qed simp
    then obtain e where "b = Inl e" ..
    with Pair Inr ri c2 show ?thesis
      by (subst findBlocks_loop.simps) (simp add: Let_def)
  qed
qed

lemma readBytes_ok:
  "pos r + n \<le> length (content r) \<Longrightarrow>
   readBytes r n = (Inr (take n (drop (pos r) (content r))), r\<lparr>pos := pos r + n\<rparr>)"
  by (simp add: readBytes_def Let_def)

lemma readInt_ok:
  "pos r + n \<le> length (content r) \<Longrightarrow>
   readInt r n = (Inr (getInt (take n (drop (pos r) (content r)))), r\<lparr>pos := pos r + n\<rparr>)"
  by (simp add: readInt_def readBytes_ok)

lemma findBlocks_loop_full:
  assumes "pos r + 4 \<le> length (content r)"
  shows "findBlocks_loop m bi ci r =
     (let b0 = content r ! pos r;
          last = bit b0 7;
          h = (if last then b0 XOR 128 else b0);
          blockLen = getInt (take 3 (drop (pos r + 1) (content r)));
          r2 = r\<lparr>pos := pos r + 4\<rparr>;
          r3 = r\<lparr>pos := pos r + 4 + nat blockLen\<rparr>
      in if h = vorbisCommentBlock then
           (let m' = m\<lparr>commentBlockLen := blockLen, commentBlockPos := int (pos r)\<rparr>
            in if last then (None, m', r3) else findBlocks_loop m' (bi + 1) bi r3)
         else if h = paddingBlock \<and> bi = ci + 1 then
           (None, m\<lparr>paddingBlockLen := blockLen, paddingBlockPos := int (pos r)\<rparr>, r2)
         else if last then (None, m, r3)
         else findBlocks_loop m (bi + 1) ci r3)"
proof -
  from assms have a: "readBytes r 1 = (Inr (take 1 (drop (pos r) (content r))), r\<lparr>pos := pos r + 1\<rparr>)"
    by (simp add: readBytes_ok)
  from assms have b: "readInt (r\<lparr>pos := pos r + 1\<rparr>) 3 =
      (Inr (getInt (take 3 (drop (pos r + 1) (content r)))), r\<lparr>pos := pos r + 4\<rparr>)"
    by (simp add: readInt_ok)
  from assms have h: "hd (take 1 (drop (pos r) (content r))) = content r ! pos r"
    by (simp add: hd_drop_conv_nth)
  have s: "snd (file_seek (r\<lparr>pos := pos r + 4\<rparr>) (getInt bs) SeekCurrent)
      = r\<lparr>pos := pos r + 4 + nat (getInt bs)\<rparr>" for bs
    using getInt_nonneg [of bs] by (simp add: seek_forward)
  have z: "fst (fst (file_seek (r\<lparr>pos := pos r + 4\<rparr>) 0 SeekCurrent)) - 4 = int (pos r)"
    by (simp add: file_seek_def Let_def)
  show ?thesis
    apply (subst findBlocks_loop.simps)
    apply (simp only: a b prod.case sum.case h s z getBit_def Let_def)
    apply (simp add: paddingBlock_def vorbisCommentBlock_def)
    done
qed


lemma findBlocks_loop_content:
  "content (snd (snd (findBlocks_loop m bi ci r))) = content r"
proof (induction "length (content r) - pos r" arbitrary: m bi ci r rule: less_induct)
  case less
  show ?case
  proof (cases "pos r + 4 \<le> length (content r)")
    case False
    then have "length (content r) < pos r + 4" by simp
    from findBlocks_loop_short [OF this, of m bi ci] show ?thesis by auto
  next
    case True
    have ih: "content (snd (snd (findBlocks_loop m' bi' ci' (r\<lparr>pos := pos r + 4 + k\<rparr>)))) = content r"
      for m' bi' ci' k
      using less [of "r\<lparr>pos := pos r + 4 + k\<rparr>" m' bi' ci'] True by simp
    show ?thesis
      by (simp add: findBlocks_loop_full [OF True] Let_def ih)
  qed
qed

lemma findBlocks_content: "content (snd (snd (findBlocks m r))) = content r"
proof (cases "findBlocks_loop m 0 0 r")
  case (fields e m' r')
  with findBlocks_loop_content [of m 0 0 r] have "content r' = content r" by simp
  with fields show ?thesis
    by (cases e) (simp_all add: findBlocks_def Let_def)
qed

lemma findBlocks_restores:
  assumes "findBlocks m r = (None, m', r')"
  shows "r' = r"
proof -
  from assms findBlocks_content [of m r] have c: "content r' = content r" by simp
  obtain e m1 r1 where l: "findBlocks_loop m 0 0 r = (e, m1, r1)"
    by (cases "findBlocks_loop m 0 0 r")
  with assms have "r' = snd (file_seek r1 (int (pos r)) SeekStart)"
    by (cases e) (simp_all add: findBlocks_def Let_def file_seek_def)
  then have "pos r' = pos r"
    by (simp add: file_seek_def Let_def)
  with c show ?thesis by simp
qed


section \<open>The signature check\<close>

lemma readString_mismatch:
  assumes "pos rw + 4 \<le> length (content rw)"
    and "take 4 (drop (pos rw) (content rw)) \<noteq> fLaC"
  shows "\<exists>flac. readString rw 4 = (Inr flac, rw\<lparr>pos := pos rw + 4\<rparr>) \<and> flac \<noteq> fLaC"
  using assms by (simp add: readString_def readBytes_ok)

text \<open>
  Claim C9. When the four bytes at the cursor are there and are not \<^verbatim>\<open>"fLaC"\<close>, both
  \<^verbatim>\<open>WriteFLACTags\<close> and \<^verbatim>\<open>ReadFLACTags\<close> return the error
  \<^verbatim>\<open>expected 'fLaC'\<close>; the stream they leave is the one they got with the cursor four
  bytes further: no block was read and no byte was written.
\<close>

theorem bad_signature_fails_before_any_write:
  assumes "pos rw + 4 \<le> length (content rw)"
    and "take 4 (drop (pos rw) (content rw)) \<noteq> fLaC"
  shows "WriteFLACTags pvc rw data = (Some ErrExpectedFLAC, rw\<lparr>pos := pos rw + 4\<rparr>)
       \<and> ReadFLACTags rvc rpb m0 rw = Some (Inl ErrExpectedFLAC, rw\<lparr>pos := pos rw + 4\<rparr>)"
proof -
  from readString_mismatch [OF assms] obtain flac
    where "readString rw 4 = (Inr flac, rw\<lparr>pos := pos rw + 4\<rparr>)" and "flac \<noteq> fLaC"
    by blast
  then show ?thesis
    by (simp add: WriteFLACTags_def ReadFLACTags_def)
qed

theorem bad_signature_fails_before_any_write_witness:
  "WriteFLACTags sample_encoder bad_signature_file 30
     = (Some ErrExpectedFLAC, bad_signature_file\<lparr>pos := pos bad_signature_file + 4\<rparr>)
   \<and> ReadFLACTags skip_reader skip_reader () bad_signature_file
     = Some (Inl ErrExpectedFLAC, bad_signature_file\<lparr>pos := pos bad_signature_file + 4\<rparr>)"
proof -
  have a: "pos bad_signature_file + 4 \<le> length (content bad_signature_file)"
    by (simp add: bad_signature_file_def)
  have b: "take 4 (drop (pos bad_signature_file) (content bad_signature_file)) \<noteq> fLaC"
    by (simp add: bad_signature_file_def fLaC_def)
  from bad_signature_fails_before_any_write [OF a b] show ?thesis .
qed

text \<open>A stream with fewer than four bytes at the cursor fails on the read, and is not written either.\<close>

lemma short_stream_fails_before_any_write:
  assumes "length (content rw) < pos rw + 4"
  shows "\<exists>e rw'. WriteFLACTags pvc rw data = (Some e, rw') \<and> content rw' = content rw"
    and "\<exists>e rw'. ReadFLACTags rvc rpb m0 rw = Some (Inl e, rw') \<and> content rw' = content rw"
  using assms
  by (auto simp: WriteFLACTags_def ReadFLACTags_def readString_def readBytes_def Let_def)

section \<open>The layout scan\<close>

text \<open>
  Claim C7. \<^verbatim>\<open>findBlocks\<close> saves the cursor and seeks back to it after the loop, but the
  two \<^verbatim>\<open>return err\<close> inside the loop leave before that. On a stream that ends after a
  block that is not the last one, the scan started at offset 4 returns \<^verbatim>\<open>io.EOF\<close> with
  the cursor at offset 8.
\<close>

theorem findBlocks_error_leaves_cursor_moved:
  "pos truncated_file = 4 \<and>
   findBlocks emptyLayout truncated_file
     = (Some EOF, emptyLayout, \<lparr>content = content truncated_file, pos = 8\<rparr>)"
  by code_simp

text \<open>
  Claim C6. The variable \<^verbatim>\<open>commentBlockIndex\<close> starts at 0, so a padding block at
  index 1 passes the test \<^verbatim>\<open>bi == commentBlockIndex+1\<close> when no comment block has been
  seen: on the container without a comment block, the scan records the padding block at
  offset 10 with length 8, and no comment block.
\<close>

theorem findBlocks_records_padding_without_comment:
  "findBlocks emptyLayout (no_comment_file\<lparr>pos := 4\<rparr>)
     = (None,
        \<lparr>commentBlockPos = 0, commentBlockLen = 0, paddingBlockPos = 10, paddingBlockLen = 8\<rparr>,
        no_comment_file\<lparr>pos := 4\<rparr>)"
  by code_simp

section \<open>Writing: the path without usable padding\<close>

lemma readString_content: "readString r n = (a, r') \<Longrightarrow> content r' = content r"
  unfolding readString_def by (rule readBytes_content)

lemma WriteFLACTags_error_path:
  assumes sig: "readString rw 4 = (Inr fLaC, rw1)"
    and lay: "findBlocks emptyLayout rw1 = (e, techMeta, rw2)"
    and nofit: "\<not> (int (length (pvc data))
                      < commentBlockLen techMeta + (paddingBlockLen techMeta - 4)
                   \<and> 0 < paddingBlockLen techMeta)"
  shows "WriteFLACTags pvc rw data = (Some ErrNoPadding, rw2)" and "content rw2 = content rw"
proof -
  from sig lay nofit show "WriteFLACTags pvc rw data = (Some ErrNoPadding, rw2)"
    by (auto simp: WriteFLACTags_def Let_def)
  from findBlocks_content [of emptyLayout rw1] lay have "content rw2 = content rw1" by simp
  with readString_content [OF sig] show "content rw2 = content rw" by simp
qed

text \<open>
  Claim C1, as the code has it. After a good signature, when the layout found has no
  padding recorded, or the new payload is not shorter than the comment length plus the
  padding length minus 4, \<^verbatim>\<open>WriteFLACTags\<close> returns the error
  \<^verbatim>\<open>cannot write tags without padding\<close> and the bytes of the file are the ones it had:
  the call of \<^verbatim>\<open>findAndWriteFlacCommentBlock\<close> stands after that \<^verbatim>\<open>return\<close>.
\<close>

theorem WriteFLACTags_without_padding_is_an_error:
  assumes "readString rw 4 = (Inr fLaC, rw1)"
    and "findBlocks emptyLayout rw1 = (e, techMeta, rw2)"
    and "\<not> (int (length (pvc data))
                < commentBlockLen techMeta + (paddingBlockLen techMeta - 4)
             \<and> 0 < paddingBlockLen techMeta)"
  shows "WriteFLACTags pvc rw data = (Some ErrNoPadding, rw2) \<and> content rw2 = content rw"
  using assms WriteFLACTags_error_path [of rw rw1 e techMeta rw2 pvc data] by simp

text \<open>The witness: the scenario container and a payload of 116 bytes, one too many.\<close>

theorem WriteFLACTags_without_padding_is_an_error_witness:
  "WriteFLACTags sample_encoder scenario_file 116 = (Some ErrNoPadding, scenario_file\<lparr>pos := 4\<rparr>)
   \<and> content (scenario_file\<lparr>pos := 4\<rparr>) = content scenario_file"
proof -
  have a: "readString scenario_file 4 = (Inr fLaC, scenario_file\<lparr>pos := 4\<rparr>)"
    by code_simp
  have b: "findBlocks emptyLayout (scenario_file\<lparr>pos := 4\<rparr>)
     = (None, \<lparr>commentBlockPos = 42, commentBlockLen = 20,
               paddingBlockPos = 66, paddingBlockLen = 100\<rparr>, scenario_file\<lparr>pos := 4\<rparr>)"
    by code_simp
  have c: "\<not> (int (length (sample_encoder 116))
                < commentBlockLen \<lparr>commentBlockPos = 42, commentBlockLen = 20,
                     paddingBlockPos = 66, paddingBlockLen = 100\<rparr>
                  + (paddingBlockLen \<lparr>commentBlockPos = 42, commentBlockLen = 20,
                     paddingBlockPos = 66, paddingBlockLen = 100\<rparr> - 4)
             \<and> 0 < paddingBlockLen \<lparr>commentBlockPos = 42, commentBlockLen = 20,
                     paddingBlockPos = 66, paddingBlockLen = 100\<rparr>)"
    by (simp add: sample_encoder_def)
  from a b c show ?thesis
    using WriteFLACTags_without_padding_is_an_error
      [of scenario_file "scenario_file\<lparr>pos := 4\<rparr>" None
          "\<lparr>commentBlockPos = 42, commentBlockLen = 20,
            paddingBlockPos = 66, paddingBlockLen = 100\<rparr>"
          "scenario_file\<lparr>pos := 4\<rparr>" sample_encoder 116]
    by simp
qed

text \<open>
  The spec's scenario with a payload of 200 bytes: the call returns the error, and the
  file keeps its 173 bytes; nothing is shifted and the file does not grow by 180.
\<close>

theorem WriteFLACTags_scenario_200_counterexample:
  "fst (WriteFLACTags sample_encoder scenario_file 200) = Some ErrNoPadding
   \<and> content (snd (WriteFLACTags sample_encoder scenario_file 200)) = content scenario_file
   \<and> length (content (snd (WriteFLACTags sample_encoder scenario_file 200)))
       \<noteq> length (content scenario_file) + 180"
proof -
  have "WriteFLACTags sample_encoder scenario_file 200
          = (Some ErrNoPadding, scenario_file\<lparr>pos := 4\<rparr>)"
    by code_simp
  then show ?thesis by simp
qed

section \<open>Writing: the path that absorbs the change in the padding\<close>

lemma length_overwrite:
  "p + length b \<le> length c \<Longrightarrow> length (overwrite c p b) = length c"
  by (simp add: overwrite_def)

lemma nth_overwrite:
  "p + length b \<le> length c \<Longrightarrow> i < length c \<Longrightarrow>
   overwrite c p b ! i = (if p \<le> i \<and> i < p + length b then b ! (i - p) else c ! i)"
  by (auto simp: overwrite_def nth_append min_def)

lemma take_drop_overwrite_same:
  "p + length b \<le> length c \<Longrightarrow> take (length b) (drop p (overwrite c p b)) = b"
  by (simp add: overwrite_def)

lemma take_drop_overwrite_other:
  assumes "p + length b \<le> length c" and "q + n \<le> p \<or> p + length b \<le> q"
  shows "take n (drop q (overwrite c p b)) = take n (drop q c)"
proof (rule nth_equalityI)
  show "length (take n (drop q (overwrite c p b))) = length (take n (drop q c))"
    using assms(1) by (simp add: length_overwrite)
next
  fix i assume "i < length (take n (drop q (overwrite c p b)))"
  then have i: "i < n" "q + i < length c" using assms(1) by (auto simp add: length_overwrite)
  then show "take n (drop q (overwrite c p b)) ! i = take n (drop q c) ! i"
    using assms by (auto simp add: length_overwrite nth_overwrite)
qed

lemma file_write_inside:
  "pos f + length b \<le> length (content f) \<Longrightarrow>
   snd (file_write f b) = \<lparr>content = overwrite (content f) (pos f) b, pos = pos f + length b\<rparr>"
  by (cases f) (simp add: file_write_def overwrite_def Let_def)

lemma seek_start:
  "0 \<le> t \<Longrightarrow> snd (file_seek f t SeekStart) = f\<lparr>pos := nat t\<rparr>"
  by (simp add: file_seek_def Let_def)

lemma file_read_one:
  "pos f < length (content f) \<Longrightarrow>
   file_read f 1 = (([content f ! pos f], None), f\<lparr>pos := pos f + 1\<rparr>)"
  by (simp add: file_read_def Let_def take_Suc_conv_app_nth hd_drop_conv_nth Cons_nth_drop_Suc [symmetric])

lemma length_formatUintBigEndian [simp]: "length (formatUintBigEndian n k) = k"
  by (simp add: formatUintBigEndian_def)


lemma byte_of_nat_mod64:
  assumes "i \<le> 7"
  shows "(of_nat ((k mod 2 ^ 64) div 256 ^ i) :: byte) = of_nat (k div 256 ^ i)"
proof -
  have p: "(256::nat) ^ i = 2 ^ (8 * i)" by (simp add: power_mult)
  have "take_bit 8 (drop_bit (8 * i) (take_bit 64 k)) = take_bit 8 (drop_bit (8 * i) k)"
  proof -
    from assms have "8 \<le> 64 - 8 * i" by simp
    then show ?thesis by (simp add: drop_bit_take_bit min_def)
  qed
  then show ?thesis
    by (simp add: word_of_nat_eq_iff p take_bit_eq_mod drop_bit_eq_div)
qed

lemma formatUintBigEndian_uint:
  "0 \<le> x \<Longrightarrow> formatUintBigEndian (uint_of_int x) 3 = formatUintBigEndian (nat x) 3"
proof -
  assume "0 \<le> x"
  then have "uint_of_int x = nat x mod 2 ^ 64"
    by (simp add: uint_of_int_def nat_mod_distrib)
  moreover have "(of_nat ((nat x mod 2 ^ 64) div 256 ^ i) :: byte) = of_nat (nat x div 256 ^ i)"
    if "i \<in> set (rev [0..<3])" for i
    using that by (intro byte_of_nat_mod64) simp
  ultimately show ?thesis
    unfolding formatUintBigEndian_def by (intro map_cong refl) simp
qed


lemma shiftPadding_inside:
  fixes cp cl pp L n np :: nat
  assumes fit: "n < cl + L"
    and np: "np + cl = pp + n"
    and ppin: "pp < length (content rw)"
    and npin: "np + 4 \<le> length (content rw)"
  shows "shiftPadding \<lparr>commentBlockPos = int cp, commentBlockLen = int cl,
                        paddingBlockPos = int pp, paddingBlockLen = int L\<rparr> rw (int n)
         = \<lparr>content = overwrite (overwrite (content rw) np [content rw ! pp])
                         (np + 1) (formatUintBigEndian (L + cl - n) 3),
            pos = np + 4\<rparr>"
proof -
  let ?c = "content rw"
  have off: "int pp + (int n - int cl) = int np" using np by simp
  have len: "int L - (int n - int cl) = int (L + cl - n)" using fit by simp
  have fmt: "formatUintBigEndian (uint_of_int (int L - (int n - int cl))) 3
               = formatUintBigEndian (L + cl - n) 3"
    unfolding len by (simp add: formatUintBigEndian_uint)
  have s1: "snd (file_seek rw (int pp) SeekStart) = rw\<lparr>pos := pp\<rparr>"
    by (simp add: seek_start)
  have rd: "file_read (rw\<lparr>pos := pp\<rparr>) 1 = (([?c ! pp], None), rw\<lparr>pos := pp + 1\<rparr>)"
    using ppin file_read_one [of "rw\<lparr>pos := pp\<rparr>"] by simp
  have s2: "snd (file_seek (rw\<lparr>pos := pp + 1\<rparr>) (int np) SeekStart) = rw\<lparr>pos := np\<rparr>"
    by (simp add: seek_start)
  have w1: "snd (file_write (rw\<lparr>pos := np\<rparr>) [?c ! pp])
              = \<lparr>content = overwrite ?c np [?c ! pp], pos = np + 1\<rparr>"
    using npin file_write_inside [of "rw\<lparr>pos := np\<rparr>" "[?c ! pp]"] by simp
  have w2: "snd (file_write \<lparr>content = overwrite ?c np [?c ! pp], pos = np + 1\<rparr>
                   (formatUintBigEndian (L + cl - n) 3))
              = \<lparr>content = overwrite (overwrite ?c np [?c ! pp]) (np + 1)
                              (formatUintBigEndian (L + cl - n) 3),
                 pos = np + 4\<rparr>"
    using npin
      file_write_inside [of "\<lparr>content = overwrite ?c np [?c ! pp], pos = np + 1\<rparr>"
                            "formatUintBigEndian (L + cl - n) 3"]
    by (simp add: length_overwrite)
  show ?thesis
    unfolding shiftPadding_def Let_def
    by (simp add: off fmt s1 rd s2 w1 w2 del: One_nat_def)
qed

lemma WriteFLACTags_write_path:
  fixes cp cl pp L n np :: nat
  assumes sig: "readString rw 4 = (Inr fLaC, rw1)"
    and lay: "findBlocks emptyLayout rw1
                = (e, \<lparr>commentBlockPos = int cp, commentBlockLen = int cl,
                       paddingBlockPos = int pp, paddingBlockLen = int L\<rparr>, rw2)"
    and n: "length (pvc data) = n"
    and fit: "n + 4 < cl + L" and L: "0 < L"
    and np: "np + cl = pp + n"
    and ppin: "pp < length (content rw)"
    and npin: "np + 4 \<le> length (content rw)"
    and cpin: "cp + 4 + n \<le> length (content rw)"
  shows "WriteFLACTags pvc rw data =
           (None,
            \<lparr>content =
               overwrite
                 (overwrite
                    (overwrite
                       (overwrite (content rw) np [content rw ! pp])
                       (np + 1) (formatUintBigEndian (L + cl - n) 3))
                    (cp + 1) (formatUintBigEndian n 3))
                 (cp + 4) (pvc data),
             pos = cp + 4 + n\<rparr>)"
proof -
  let ?c = "content rw"
  let ?m = "\<lparr>commentBlockPos = int cp, commentBlockLen = int cl,
             paddingBlockPos = int pp, paddingBlockLen = int L\<rparr>"
  let ?c2 = "overwrite (overwrite ?c np [?c ! pp]) (np + 1) (formatUintBigEndian (L + cl - n) 3)"
  let ?c3 = "overwrite ?c2 (cp + 1) (formatUintBigEndian n 3)"
  from findBlocks_content [of emptyLayout rw1] lay have "content rw2 = content rw1" by simp
  with readString_content [OF sig] have c2: "content rw2 = ?c" by simp
  have cond: "int n < int cl + (int L - 4) \<and> 0 < int L" using fit L by simp
  have l2: "length ?c2 = length ?c" using npin by (simp add: length_overwrite)
  have l3: "length ?c3 = length ?c" using npin cpin l2 by (simp add: length_overwrite)
  have sp: "shiftPadding ?m rw2 (int n) = \<lparr>content = ?c2, pos = np + 4\<rparr>"
    using shiftPadding_inside [of n cl L np pp rw2 cp] fit np ppin npin c2 by simp
  have s: "snd (file_seek \<lparr>content = ?c2, pos = np + 4\<rparr> (int cp + 1) SeekStart)
             = \<lparr>content = ?c2, pos = cp + 1\<rparr>"
    by (simp add: seek_start nat_add_distrib)
  have fmt: "formatUintBigEndian (uint_of_int (int n)) 3 = formatUintBigEndian n 3"
    by (simp add: formatUintBigEndian_uint)
  have w1: "snd (file_write \<lparr>content = ?c2, pos = cp + 1\<rparr> (formatUintBigEndian n 3))
              = \<lparr>content = ?c3, pos = cp + 4\<rparr>"
    using cpin l2 file_write_inside [of "\<lparr>content = ?c2, pos = cp + 1\<rparr>" "formatUintBigEndian n 3"]
    by simp
  have w2: "snd (file_write \<lparr>content = ?c3, pos = cp + 4\<rparr> (pvc data))
              = \<lparr>content = overwrite ?c3 (cp + 4) (pvc data), pos = cp + 4 + n\<rparr>"
    using cpin l3 n file_write_inside [of "\<lparr>content = ?c3, pos = cp + 4\<rparr>" "pvc data"]
    by simp
  show ?thesis
    unfolding WriteFLACTags_def Let_def
    using cond by (simp add: sig lay n sp s fmt w1 w2 del: One_nat_def)
qed


lemma getInt_formatUintBigEndian:
  assumes "n < 2 ^ 24"
  shows "getInt (formatUintBigEndian n 3) = int n"
proof -
  have r: "rev [0..<3] = [2, 1, 0::nat]" by (simp add: upt_rec)
  have d: "n div 65536 < 256" using assms by (simp add: less_mult_imp_div_less)
  have a: "n mod (256 * 256) = 256 * (n div 256 mod 256) + n mod 256"
    by (rule mod_mult2_eq)
  have b: "n = (n div 65536) * 65536 + n mod 65536"
    by simp
  from a have a': "n mod 65536 = 256 * (n div 256 mod 256) + n mod 256" by simp
  have "n = (n div 65536 * 256 + n div 256 mod 256) * 256 + n mod 256"
    using b a' by (simp add: algebra_simps)
  then have "int n = int ((n div 65536 * 256 + n div 256 mod 256) * 256 + n mod 256)"
    by (rule arg_cong)
  also have "\<dots> = (int (n div 65536 mod 256) * 256 + int (n div 256 mod 256)) * 256 + int (n mod 256)"
    using d by simp
  finally have e: "int n = (int (n div 65536 mod 256) * 256 + int (n div 256 mod 256)) * 256 + int (n mod 256)" .
  have "getInt (formatUintBigEndian n 3) =
     (int (n div 65536 mod 256) * 256 + int (n div 256 mod 256)) * 256 + int (n mod 256)"
    by (simp add: formatUintBigEndian_def r getInt_def unsigned_of_nat take_bit_eq_mod)
  also note e [symmetric]
  finally show ?thesis .
qed


text \<open>
  Claim C2, as the code has it. Let the signature be good and the layout found have a
  comment block of length \<open>cl\<close> at offset \<open>cp\<close>, followed at once (at offset
  \<open>cp + 4 + cl\<close>) by a padding block of length \<open>L\<close> that lies within the file, with
  \<open>L > 0\<close>: the code takes the in-place path only when the padding length is positive.
  When the new payload is shorter than \<open>cl + (L - 4)\<close>, \<^verbatim>\<open>WriteFLACTags\<close> returns no
  error; the file keeps its length; no byte at or before \<open>cp\<close> or after the old padding
  block changes; the three bytes after \<open>cp\<close> are the new length and the payload follows
  them; the header byte of the padding block is now right after the payload, with the
  length \<open>L - (len - cl)\<close> behind it. The two lengths are read back from their three bytes
  when they are below \<open>2^24\<close>.
\<close>

theorem WriteFLACTags_in_place:
  fixes cp cl L :: nat
  assumes sig: "readString rw 4 = (Inr fLaC, rw1)"
    and lay: "findBlocks emptyLayout rw1
                = (e, \<lparr>commentBlockPos = int cp, commentBlockLen = int cl,
                       paddingBlockPos = int (cp + 4 + cl), paddingBlockLen = int L\<rparr>, rw2)"
    and L: "0 < L"
    and inside: "cp + 4 + cl + 4 + L \<le> length (content rw)"
    and fit: "int (length (pvc data)) < int cl + (int L - 4)"
  shows "\<exists>rw'. WriteFLACTags pvc rw data = (None, rw')
           \<and> length (content rw') = length (content rw)
           \<and> (\<forall>i<length (content rw). i \<le> cp \<or> cp + 4 + cl + 4 + L \<le> i
                  \<longrightarrow> content rw' ! i = content rw ! i)
           \<and> take 3 (drop (cp + 1) (content rw')) = formatUintBigEndian (length (pvc data)) 3
           \<and> take (length (pvc data)) (drop (cp + 4) (content rw')) = pvc data
           \<and> content rw' ! (cp + 4 + length (pvc data)) = content rw ! (cp + 4 + cl)
           \<and> take 3 (drop (cp + 4 + length (pvc data) + 1) (content rw'))
                = formatUintBigEndian (L + cl - length (pvc data)) 3
           \<and> (length (pvc data) < 2 ^ 24
                \<longrightarrow> getInt (take 3 (drop (cp + 1) (content rw'))) = int (length (pvc data)))
           \<and> (L + cl - length (pvc data) < 2 ^ 24
                \<longrightarrow> getInt (take 3 (drop (cp + 4 + length (pvc data) + 1) (content rw')))
                      = int L - (int (length (pvc data)) - int cl))"
proof -
  define n where "n = length (pvc data)"
  define np where "np = cp + 4 + n"
  let ?c = "content rw"
  let ?F1 = "formatUintBigEndian n 3"
  let ?F2 = "formatUintBigEndian (L + cl - n) 3"
  define c1 where "c1 = overwrite ?c np [?c ! (cp + 4 + cl)]"
  define c2 where "c2 = overwrite c1 (np + 1) ?F2"
  define c3 where "c3 = overwrite c2 (cp + 1) ?F1"
  define c4 where "c4 = overwrite c3 (cp + 4) (pvc data)"
  from fit have fit': "n + 4 < cl + L" by (simp add: n_def)
  have npin: "np + 4 \<le> length ?c" using fit' inside by (simp add: np_def)
  have l1: "length c1 = length ?c" using npin by (simp add: c1_def length_overwrite)
  have l2: "length c2 = length ?c" using npin l1 by (simp add: c2_def length_overwrite)
  have l3: "length c3 = length ?c" using npin l2 by (simp add: c3_def length_overwrite np_def)
  have l4: "length c4 = length ?c" using npin l3 by (simp add: c4_def length_overwrite np_def n_def)
  have res: "WriteFLACTags pvc rw data = (None, \<lparr>content = c4, pos = cp + 4 + n\<rparr>)"
    unfolding c4_def c3_def c2_def c1_def
    by (rule WriteFLACTags_write_path [OF sig lay]) (use fit' L inside npin in \<open>simp_all add: n_def np_def\<close>)
  have frame: "c4 ! i = ?c ! i" if "i < length ?c" "i \<le> cp \<or> cp + 4 + cl + 4 + L \<le> i" for i
  proof -
    have "c4 ! i = c3 ! i"
      using that fit' l3 npin by (auto simp add: c4_def nth_overwrite np_def n_def)
    also have "\<dots> = c2 ! i"
      using that fit' l2 npin by (auto simp add: c3_def nth_overwrite np_def)
    also have "\<dots> = c1 ! i"
      using that fit' l1 npin by (auto simp add: c2_def nth_overwrite np_def)
    also have "\<dots> = ?c ! i"
      using that fit' npin by (auto simp add: c1_def nth_overwrite np_def)
    finally show ?thesis .
  qed
  have h1: "take 3 (drop (cp + 1) c4) = ?F1"
  proof -
    have "take 3 (drop (cp + 1) c4) = take 3 (drop (cp + 1) c3)"
      unfolding c4_def using l3 npin
      by (intro take_drop_overwrite_other) (simp_all add: np_def n_def)
    also have "\<dots> = ?F1"
      unfolding c3_def using l2 npin
      take_drop_overwrite_same [of "cp + 1" ?F1 c2] by (simp add: np_def)
    finally show ?thesis .
  qed
  have h2: "take n (drop (cp + 4) c4) = pvc data"
    unfolding c4_def using l3 npin take_drop_overwrite_same [of "cp + 4" "pvc data" c3]
    by (simp add: np_def n_def)
  have h3: "c4 ! np = ?c ! (cp + 4 + cl)"
  proof -
    have "c4 ! np = c3 ! np"
      using l3 npin by (simp add: c4_def nth_overwrite np_def n_def)
    also have "\<dots> = c2 ! np"
      using l2 npin by (simp add: c3_def nth_overwrite np_def)
    also have "\<dots> = c1 ! np"
      using l1 npin by (simp add: c2_def nth_overwrite)
    also have "\<dots> = ?c ! (cp + 4 + cl)"
      using npin by (simp add: c1_def nth_overwrite)
    finally show ?thesis .
  qed
  have h4: "take 3 (drop (np + 1) c4) = ?F2"
  proof -
    have "take 3 (drop (np + 1) c4) = take 3 (drop (np + 1) c3)"
      unfolding c4_def using l3 npin
      by (intro take_drop_overwrite_other) (simp_all add: np_def n_def)
    also have "\<dots> = take 3 (drop (np + 1) c2)"
      unfolding c3_def using l2 npin
      by (intro take_drop_overwrite_other) (simp_all add: np_def)
    also have "\<dots> = ?F2"
      unfolding c2_def using l1 npin
      take_drop_overwrite_same [of "np + 1" ?F2 c1] by simp
    finally show ?thesis .
  qed
  have g1: "getInt (take 3 (drop (cp + 1) c4)) = int n" if "n < 2 ^ 24"
    unfolding h1 using that by (rule getInt_formatUintBigEndian)
  have g2: "getInt (take 3 (drop (np + 1) c4)) = int L - (int n - int cl)" if "L + cl - n < 2 ^ 24"
    unfolding h4 using that fit' by (simp add: getInt_formatUintBigEndian)
  show ?thesis
    using res l4 frame h1 h2 h3 h4 g1 g2
    unfolding n_def [symmetric] np_def [symmetric]
    by (intro exI [of _ "\<lparr>content = c4, pos = cp + 4 + n\<rparr>"]) (simp add: np_def)
qed


text \<open>
  The witness is the first scenario of the spec: the comment block of length 20 at offset
  42, the padding block of length 100 at offset 66 and a payload of 30 bytes. The file
  keeps its length, the length 30 is at offset 43, the payload at offset 46, the padding
  header at offset 76 with the length 90.
\<close>

theorem WriteFLACTags_in_place_witness:
  "\<exists>rw'. WriteFLACTags sample_encoder scenario_file 30 = (None, rw')
         \<and> length (content rw') = length (content scenario_file)
         \<and> getInt (take 3 (drop 43 (content rw'))) = 30
         \<and> take 30 (drop 46 (content rw')) = sample_encoder 30
         \<and> content rw' ! 76 = content scenario_file ! 66
         \<and> getInt (take 3 (drop 77 (content rw'))) = 90"
proof -
  have a: "readString scenario_file 4 = (Inr fLaC, scenario_file\<lparr>pos := 4\<rparr>)"
    by code_simp
  have b: "findBlocks emptyLayout (scenario_file\<lparr>pos := 4\<rparr>)
     = (None, \<lparr>commentBlockPos = int 42, commentBlockLen = int 20,
               paddingBlockPos = int (42 + 4 + 20), paddingBlockLen = int 100\<rparr>,
        scenario_file\<lparr>pos := 4\<rparr>)"
    by code_simp
  have c: "42 + 4 + 20 + 4 + 100 \<le> length (content scenario_file)"
    by (simp add: scenario_file_def fLaC_def)
  have d: "int (length (sample_encoder 30)) < int 20 + (int 100 - 4)"
    by (simp add: sample_encoder_def)
  have l: "length (sample_encoder 30) = 30" by (simp add: sample_encoder_def)
  have z: "0 < (100::nat)" by simp
  from WriteFLACTags_in_place [where pvc = sample_encoder and data = 30, OF a b z c d]
  show ?thesis
    unfolding l by auto
qed

text \<open>
  The claim as stated fails when the padding block has the length 0: with a comment block
  of length 20 and a payload of 10 bytes, \<open>10 < 20 + (0 - 4)\<close> holds, and the code returns
  the error \<^verbatim>\<open>cannot write tags without padding\<close> and writes nothing.
\<close>

theorem WriteFLACTags_zero_padding_counterexample:
  "findBlocks emptyLayout (zero_padding_file\<lparr>pos := 4\<rparr>)
     = (None, \<lparr>commentBlockPos = 4, commentBlockLen = 20,
               paddingBlockPos = 28, paddingBlockLen = 0\<rparr>, zero_padding_file\<lparr>pos := 4\<rparr>)
   \<and> int (length (sample_encoder 10)) < 20 + (0 - 4)
   \<and> WriteFLACTags sample_encoder zero_padding_file 10
     = (Some ErrNoPadding, zero_padding_file\<lparr>pos := 4\<rparr>)"
proof -
  have "findBlocks emptyLayout (zero_padding_file\<lparr>pos := 4\<rparr>)
     = (None, \<lparr>commentBlockPos = 4, commentBlockLen = 20,
               paddingBlockPos = 28, paddingBlockLen = 0\<rparr>, zero_padding_file\<lparr>pos := 4\<rparr>)"
    by code_simp
  moreover have "WriteFLACTags sample_encoder zero_padding_file 10
     = (Some ErrNoPadding, zero_padding_file\<lparr>pos := 4\<rparr>)"
    by code_simp
  ultimately show ?thesis by (simp add: sample_encoder_def)
qed

section \<open>Writing into a container without a comment block\<close>

text \<open>
  Claim C8. On the container without a comment block, whose second block is padding, the
  layout scan records that padding block and leaves the comment position and length at 0.
  \<^verbatim>\<open>WriteFLACTags\<close> with a payload of two bytes then returns no error and writes the
  length at offsets 1 to 3, over the signature, the payload at offsets 4 and 5, over the
  header of the first block, and a padding header at offset 12.
\<close>

theorem WriteFLACTags_without_comment_block_writes:
  "WriteFLACTags sample_encoder no_comment_file 2
     = (None,
        \<lparr>content = [0x66, 0, 0, 2, 0xAA, 0xAA, 0, 2, 7, 7, 0x81, 0, 0x81, 0, 0, 6,
                    0, 0, 0, 0, 0, 0, 9, 9, 9],
         pos = 6\<rparr>)
   \<and> content no_comment_file
     = [0x66, 0x4C, 0x61, 0x43, 0, 0, 0, 2, 7, 7, 0x81, 0, 0, 8,
        0, 0, 0, 0, 0, 0, 0, 0, 9, 9, 9]"
proof -
  have a: "readString no_comment_file 4 = (Inr fLaC, no_comment_file\<lparr>pos := 4\<rparr>)"
    by code_simp
  have b: "findBlocks emptyLayout (no_comment_file\<lparr>pos := 4\<rparr>)
     = (None, \<lparr>commentBlockPos = int 0, commentBlockLen = int 0,
               paddingBlockPos = int 10, paddingBlockLen = int 8\<rparr>,
        no_comment_file\<lparr>pos := 4\<rparr>)"
    by code_simp
  have c: "content no_comment_file
     = [0x66, 0x4C, 0x61, 0x43, 0, 0, 0, 2, 7, 7, 0x81, 0, 0, 8,
        0, 0, 0, 0, 0, 0, 0, 0, 9, 9, 9]"
    by code_simp
  have l: "length (sample_encoder 2) = 2" by (simp add: sample_encoder_def)
  have r: "rev [0..<3] = [2, 1, 0::nat]" by (simp add: upt_rec)
  have "WriteFLACTags sample_encoder no_comment_file 2 =
           (None,
            \<lparr>content =
               overwrite
                 (overwrite
                    (overwrite
                       (overwrite (content no_comment_file) 12 [content no_comment_file ! 10])
                       (12 + 1) (formatUintBigEndian (8 + 0 - 2) 3))
                    (0 + 1) (formatUintBigEndian 2 3))
                 (0 + 4) (sample_encoder 2),
             pos = 0 + 4 + 2\<rparr>)"
    by (rule WriteFLACTags_write_path [where pvc = sample_encoder and data = 2, OF a b l])
       (simp_all add: c)
  moreover have "sample_encoder 2 = [0xAA, 0xAA]" by code_simp
  ultimately show ?thesis
    by (simp add: c overwrite_def formatUintBigEndian_def r)
qed


section \<open>The file shift engine: shifting left\<close>

lemma file_seek_cur:
  "0 \<le> int (pos f) + off \<Longrightarrow>
   file_seek f off SeekCurrent = ((int (pos f) + off, None), f\<lparr>pos := nat (int (pos f) + off)\<rparr>)"
  by (simp add: file_seek_def Let_def)

lemma file_seek_end:
  "0 \<le> int (length (content f)) + off \<Longrightarrow>
   file_seek f off SeekEnd
     = ((int (length (content f)) + off, None), f\<lparr>pos := nat (int (length (content f)) + off)\<rparr>)"
  by (simp add: file_seek_def Let_def)

lemma file_read_eof:
  "0 < k \<Longrightarrow> length (content f) \<le> pos f \<Longrightarrow> file_read f k = (([], Some EOF), f)"
  by (simp add: file_read_def)

lemma file_read_some:
  "0 < k \<Longrightarrow> pos f < length (content f) \<Longrightarrow>
   file_read f k = ((take k (drop (pos f) (content f)), None),
                    f\<lparr>pos := pos f + min k (length (content f) - pos f)\<rparr>)"
  by (simp add: file_read_def Let_def min_def)

lemma file_write_le:
  "pos f \<le> length (content f) \<Longrightarrow>
   file_write f b = ((int (length b), None),
                     \<lparr>content = overwrite (content f) (pos f) b, pos = pos f + length b\<rparr>)"
  by (cases f) (simp add: file_write_def overwrite_def Let_def)

lemma take_overwrite:
  "p \<le> length c \<Longrightarrow> take (p + length b) (overwrite c p b) = take p c @ b"
  by (simp add: overwrite_def)

lemma take_overwrite_before:
  "p \<le> length c \<Longrightarrow> q \<le> p \<Longrightarrow> take q (overwrite c p b) = take q c"
  by (simp add: overwrite_def min_def)

lemma drop_overwrite_after:
  "p \<le> length c \<Longrightarrow> p + length b \<le> q \<Longrightarrow> drop q (overwrite c p b) = drop q c"
  by (simp add: overwrite_def)

lemma drop_overwrite_at:
  "p \<le> length c \<Longrightarrow> drop p (overwrite c p b) = b @ drop (p + length b) c"
  by (simp add: overwrite_def)

lemma closed_left_step:
  assumes "w + k + n \<le> length c" and "0 < n"
  shows "closed_left (overwrite c w (take n (drop (w + k) c))) (w + n) k = closed_left c w k"
proof -
  let ?bs = "take n (drop (w + k) c)"
  have lb: "length ?bs = n" using assms by simp
  have wl: "w \<le> length c" using assms by simp
  have l1: "length (overwrite c w ?bs) = length c"
    using assms lb by (simp add: length_overwrite)
  have t: "take (w + n) (overwrite c w ?bs) = take w c @ ?bs"
    using take_overwrite [OF wl, of ?bs] lb by simp
  have d1: "drop (w + n + k) (overwrite c w ?bs) = drop (w + n + k) c"
    using wl lb by (simp add: drop_overwrite_after)
  have d2: "drop (length c - k) (overwrite c w ?bs) = drop (length c - k) c"
    using wl lb assms by (simp add: drop_overwrite_after)
  have m1: "max (w + n) (length c - k) = length c - k" using assms by simp
  have m2: "max w (length c - k) = length c - k" using assms by simp
  have e: "drop (w + n + k) c = drop n (drop (w + k) c)"
    by (simp add: ac_simps)
  have sp: "drop (w + k) c = ?bs @ drop (w + n + k) c"
    unfolding e by (rule append_take_drop_id [symmetric])
  have sp': "?bs @ drop (w + n + k) c @ r = drop (w + k) c @ r" for r
    using sp by (simp only: append_assoc [symmetric])
  show ?thesis
    unfolding closed_left_def l1 m1 m2 t d1 d2
    by (simp only: append_assoc sp')
qed


lemma closed_left_id:
  assumes "length c \<le> w + k"
  shows "closed_left c w k = c"
proof -
  have "max w (length c - k) = w" using assms by simp
  with assms show ?thesis by (simp add: closed_left_def)
qed

lemma ShiftFileLeft_loop_closed:
  "ShiftFileLeft_loop (int k) \<lparr>content = c, pos = w\<rparr>
     = Some (None, \<lparr>content = closed_left c w k, pos = max (w + k) (length c)\<rparr>)"
proof (induction "length c - (w + k)" arbitrary: c w rule: less_induct)
  case less
  let ?f = "\<lparr>content = c, pos = w\<rparr>"
  have s1: "file_seek ?f (int k) SeekCurrent = ((int w + int k, None), \<lparr>content = c, pos = w + k\<rparr>)"
    using file_seek_cur [of ?f "int k"] by (simp add: nat_add_distrib)
  show ?case
  proof (cases "length c \<le> w + k")
    case True
    have rd: "file_read \<lparr>content = c, pos = w + k\<rparr> 1048576
                = (([], Some EOF), \<lparr>content = c, pos = w + k\<rparr>)"
      using True by (simp add: file_read_eof)
    show ?thesis
      apply (subst ShiftFileLeft_loop.simps)
      using True
      apply (simp add: s1 rd Let_def closed_left_id max_def)
      done
  next
    case False
    define n where "n = min 1048576 (length c - (w + k))"
    let ?bs = "take n (drop (w + k) c)"
    have n: "0 < n" "w + k + n \<le> length c" using False by (simp_all add: n_def)
    have bs: "take 1048576 (drop (w + k) c) = ?bs" by (simp add: n_def min_def)
    have lb: "length ?bs = n" using n by simp
    have rd: "file_read \<lparr>content = c, pos = w + k\<rparr> 1048576
                = ((?bs, None), \<lparr>content = c, pos = w + k + n\<rparr>)"
      using False file_read_some [of "1048576" "\<lparr>content = c, pos = w + k\<rparr>"]
      by (simp add: bs n_def)
    have s2: "file_seek \<lparr>content = c, pos = w + k + n\<rparr> (- int n - int k) SeekCurrent
                = ((int w, None), \<lparr>content = c, pos = w\<rparr>)"
      using file_seek_cur [of "\<lparr>content = c, pos = w + k + n\<rparr>" "- int n - int k"] by simp
    have wr: "file_write \<lparr>content = c, pos = w\<rparr> ?bs
                = ((int n, None), \<lparr>content = overwrite c w ?bs, pos = w + n\<rparr>)"
      using n file_write_le [of "\<lparr>content = c, pos = w\<rparr>" ?bs] lb by simp
    have l1: "length (overwrite c w ?bs) = length c"
      using n lb by (simp add: length_overwrite)
    have ih: "ShiftFileLeft_loop (int k) \<lparr>content = overwrite c w ?bs, pos = w + n\<rparr>
        = Some (None, \<lparr>content = closed_left (overwrite c w ?bs) (w + n) k,
                        pos = max (w + n + k) (length c)\<rparr>)"
      using less [of "overwrite c w ?bs" "w + n"] n l1 by simp
    have mx: "max (w + n + k) (length c) = max (w + k) (length c)"
      using n by simp
    show ?thesis
      apply (subst ShiftFileLeft_loop.simps)
      using n
      apply (simp add: s1 rd lb s2 wr ih mx closed_left_step Let_def del: One_nat_def)
      done
  qed
qed

lemma ShiftFileLeft_closed:
  "ShiftFileLeft \<lparr>content = c, pos = p\<rparr> (int k)
     = Some (None, \<lparr>content = closed_left c p k, pos = p\<rparr>)"
  by (simp add: ShiftFileLeft_def ShiftFileLeft_loop_closed file_seek_def Let_def)


lemma length_closed_left: "length (closed_left c p k) = length c"
proof (cases "p + k \<le> length c")
  case True
  then have "max p (length c - k) = length c - k" by simp
  with True show ?thesis by (simp add: closed_left_def)
next
  case False
  then show ?thesis by (simp add: closed_left_id)
qed

lemma nth_closed_left:
  assumes "i < length c"
  shows "closed_left c p k ! i = (if p \<le> i \<and> i + k < length c then c ! (i + k) else c ! i)"
proof (cases "p + k \<le> length c")
  case True
  then have m: "max p (length c - k) = length c - k" by simp
  have e: "closed_left c p k = take p c @ drop (p + k) c @ drop (length c - k) c"
    by (simp add: closed_left_def m)
  consider "i < p" | "p \<le> i" "i + k < length c" | "p \<le> i" "length c \<le> i + k" by linarith
  then show ?thesis
  proof cases
    case 1
    with True assms show ?thesis by (simp add: e nth_append)
  next
    case 2
    then have "i - p < length c - (p + k)" "p + k + (i - p) = i + k" by simp_all
    with 2 True assms show ?thesis by (simp add: e nth_append add.commute)
  next
    case 3
    with True assms have "length c - k + (i - p - (length c - (p + k))) = i"
      and "\<not> i - p < length c - (p + k)" by simp_all
    with 3 True assms show ?thesis by (simp add: e nth_append)
  qed
next
  case False
  with assms show ?thesis by (auto simp add: closed_left_id)
qed

text \<open>
  Claim C4, as the code has it. For a positive offset, \<^verbatim>\<open>ShiftFileLeft\<close> returns no
  error and restores the cursor \<open>p\<close>; the byte at every position \<open>i\<close> from \<open>p\<close> on with
  \<open>i + offset\<close> below the file size \<open>S\<close> is the byte that was at \<open>i + offset\<close>, so the bytes
  of \<open>[p + offset, S)\<close> are now at \<open>[p, S - offset)\<close>; every other byte, the last
  \<open>offset\<close> bytes among them, is unchanged, and the file keeps its length \<open>S\<close>: the code
  has no truncation, and an \<^verbatim>\<open>io.ReadWriteSeeker\<close> offers none.
\<close>

theorem ShiftFileLeft_moves_without_truncating:
  assumes "0 < offset"
  shows "\<exists>rw'. ShiftFileLeft rw offset = Some (None, rw')
           \<and> pos rw' = pos rw
           \<and> length (content rw') = length (content rw)
           \<and> (\<forall>i<length (content rw).
                 content rw' ! i =
                   (if pos rw \<le> i \<and> i + nat offset < length (content rw)
                    then content rw ! (i + nat offset) else content rw ! i))"
proof -
  from assms have o: "offset = int (nat offset)" by simp
  have "ShiftFileLeft rw offset
          = Some (None, \<lparr>content = closed_left (content rw) (pos rw) (nat offset), pos = pos rw\<rparr>)"
    using ShiftFileLeft_closed [of "content rw" "pos rw" "nat offset"] o by (cases rw) simp
  then show ?thesis
    by (simp add: length_closed_left nth_closed_left)
qed

theorem ShiftFileLeft_moves_without_truncating_witness:
  "\<exists>rw'. ShiftFileLeft \<lparr>content = [1, 2, 3, 4, 5], pos = 1\<rparr> 2 = Some (None, rw')
         \<and> pos rw' = 1 \<and> length (content rw') = 5
         \<and> content rw' ! 0 = 1 \<and> content rw' ! 1 = 4 \<and> content rw' ! 2 = 5
         \<and> content rw' ! 3 = 4 \<and> content rw' ! 4 = 5"
proof -
  have "(0::int) < 2" by simp
  from ShiftFileLeft_moves_without_truncating [OF this, of "\<lparr>content = [1, 2, 3, 4, 5], pos = 1\<rparr>"]
  obtain rw' where r: "ShiftFileLeft \<lparr>content = [1, 2, 3, 4, 5], pos = 1\<rparr> 2 = Some (None, rw')"
    "pos rw' = 1" "length (content rw') = 5"
    and n: "\<And>i. i < 5 \<Longrightarrow> content rw' ! i =
                   (if 1 \<le> i \<and> i + 2 < 5
                    then [1, 2, 3, 4, 5 :: byte] ! (i + 2) else [1, 2, 3, 4, 5] ! i)"
    by auto
  from n [of 0] n [of 1] n [of 2] n [of 3] n [of 4] r show ?thesis by simp
qed

text \<open>
  The claim as stated asks for the length \<open>S - offset\<close>. On five bytes with the cursor at 1
  and the offset 2 the file keeps five bytes, the last two of them stale.
\<close>

theorem ShiftFileLeft_keeps_length_counterexample:
  "ShiftFileLeft \<lparr>content = [1, 2, 3, 4, 5], pos = 1\<rparr> 2
     = Some (None, \<lparr>content = [1, 4, 5, 4, 5], pos = 1\<rparr>)
   \<and> length [1, 4, 5, 4, 5 :: byte] \<noteq> length [1, 2, 3, 4, 5 :: byte] - 2"
  using ShiftFileLeft_closed [of "[1, 2, 3, 4, 5]" 1 2]
  by (simp add: closed_left_def)


section \<open>The file shift engine: shifting right\<close>

lemma file_read_full:
  assumes "pos f + k \<le> length (content f)"
  shows "file_read f k = ((take k (drop (pos f) (content f)), None), f\<lparr>pos := pos f + k\<rparr>)"
proof (cases "k = 0")
  case True
  then show ?thesis by (simp add: file_read_def)
next
  case False
  with assms have "pos f < length (content f)" "min k (length (content f) - pos f) = k"
    by simp_all
  with False show ?thesis by (simp add: file_read_some)
qed

lemma take_drop_overwrite_before:
  assumes "w \<le> length c" and "j + n \<le> w"
  shows "take n (drop j (overwrite c w bs)) = take n (drop j c)"
proof -
  have "take n (drop j (overwrite c w bs)) = take n (drop j (take w c))"
    using assms by (simp add: overwrite_def)
  also have "\<dots> = take n (drop j c)"
    using assms by (simp add: drop_take min_def)
  finally show ?thesis .
qed

lemma shift_right_step:
  assumes "p \<le> q" and "q + b \<le> length cur" and "q + k \<le> length cur"
  defines "cur' \<equiv> overwrite cur (q + k) (take b (drop q cur))"
  shows "take p cur' @ r @ take (q - p) (drop p cur') @ drop (q + k) cur'
       = take p cur @ r @ take (q + b - p) (drop p cur) @ drop (q + b + k) cur"
proof -
  let ?bs = "take b (drop q cur)"
  have lb: "length ?bs = b" using assms by simp
  have a: "take p cur' = take p cur"
    unfolding cur'_def using assms(1,3) by (simp add: take_overwrite_before)
  have b: "take (q - p) (drop p cur') = take (q - p) (drop p cur)"
    unfolding cur'_def using assms(1,3) by (simp add: take_drop_overwrite_before)
  have c: "drop (q + k) cur' = ?bs @ drop (q + b + k) cur"
    unfolding cur'_def using assms(3) lb
    by (simp add: drop_overwrite_at add.commute add.left_commute)
  have "q + b - p = (q - p) + b" using assms(1) by simp
  then have "take (q + b - p) (drop p cur) = take (q - p) (drop p cur) @ take b (drop (q - p) (drop p cur))"
    by (simp only: take_add)
  also have "drop (q - p) (drop p cur) = drop q cur" using assms(1) by simp
  finally have d: "take (q + b - p) (drop p cur) = take (q - p) (drop p cur) @ ?bs" .
  show ?thesis by (simp only: a b c d append_assoc)
qed

lemma ShiftFileRight_loop_stop:
  assumes "p + b \<le> length cur" and "p + k \<le> length cur"
    and "b \<le> length arr" and "k \<le> length arr"
  shows "ShiftFileRight_loop (int k) (int p) arr (int b) True \<lparr>content = cur, pos = p\<rparr>
     = Some (Done \<lparr>content = take p cur @ replicate k 0x5F @ take b (drop p cur)
                                @ drop (p + b + k) cur,
                    pos = p + k\<rparr>)"
proof -
  let ?bs = "take b (drop p cur)"
  let ?cur' = "overwrite cur (p + k) ?bs"
  have lb: "length ?bs = b" using assms by simp
  have rd: "file_read \<lparr>content = cur, pos = p\<rparr> b = ((?bs, None), \<lparr>content = cur, pos = p + b\<rparr>)"
    using assms(1) file_read_full [of "\<lparr>content = cur, pos = p\<rparr>" b] by simp
  have s1: "file_seek \<lparr>content = cur, pos = p + b\<rparr> (int k - int b) SeekCurrent
             = ((int p + int k, None), \<lparr>content = cur, pos = p + k\<rparr>)"
    using file_seek_cur [of "\<lparr>content = cur, pos = p + b\<rparr>" "int k - int b"]
    by (simp add: nat_add_distrib)
  have tk: "take b (?bs @ drop b arr) = ?bs" using lb by simp
  have w1: "file_write \<lparr>content = cur, pos = p + k\<rparr> ?bs
             = ((int b, None), \<lparr>content = ?cur', pos = p + k + b\<rparr>)"
    using assms(2) file_write_le [of "\<lparr>content = cur, pos = p + k\<rparr>" ?bs] lb by simp
  have s2: "file_seek \<lparr>content = ?cur', pos = p + k + b\<rparr> (- int b - int k) SeekCurrent
             = ((int p, None), \<lparr>content = ?cur', pos = p\<rparr>)"
    using file_seek_cur [of "\<lparr>content = ?cur', pos = p + k + b\<rparr>" "- int b - int k"] by simp
  have la: "length (?bs @ drop b arr) = length arr" using lb assms(3) by simp
  have l': "p \<le> length ?cur'" using assms(2) by (simp add: overwrite_def)
  have w2: "file_write \<lparr>content = ?cur', pos = p\<rparr> (replicate k 0x5F)
             = ((int k, None), \<lparr>content = overwrite ?cur' p (replicate k 0x5F), pos = p + k\<rparr>)"
    using l' file_write_le [of "\<lparr>content = ?cur', pos = p\<rparr>" "replicate k 0x5F"] by simp
  have fin: "overwrite ?cur' p (replicate k 0x5F)
      = take p cur @ replicate k 0x5F @ ?bs @ drop (p + b + k) cur"
  proof -
    have "overwrite ?cur' p (replicate k 0x5F)
            = take p ?cur' @ replicate k 0x5F @ drop (p + k) ?cur'"
      by (simp add: overwrite_def)
    also have "take p ?cur' = take p cur"
      using assms(2) by (simp add: take_overwrite_before)
    also have "drop (p + k) ?cur' = ?bs @ drop (p + b + k) cur"
      using assms(2) lb by (simp add: drop_overwrite_at add.commute add.left_commute)
    finally show ?thesis .
  qed
  have m: "min (length cur - p) b = b" using assms(1) by simp
  show ?thesis
    apply (subst ShiftFileRight_loop.simps)
    using assms(3,4)
    apply (simp add: rd m s1 w1 s2 w2 fin Let_def del: One_nat_def)
    done
qed


lemma ShiftFileRight_loop_run:
  assumes "p \<le> q" and "q + b \<le> length cur" and "q + k \<le> length cur"
    and "0 < b" and "b \<le> length arr" and "k \<le> length arr"
  shows "ShiftFileRight_loop (int k) (int p) arr (int b) False \<lparr>content = cur, pos = q\<rparr>
     = Some (Done \<lparr>content = take p cur @ replicate k 0x5F @ take (q + b - p) (drop p cur)
                                @ drop (q + b + k) cur,
                    pos = p + k\<rparr>)"
  using assms
proof (induction "q - p" arbitrary: q cur arr rule: less_induct)
  case less
  let ?bs = "take b (drop q cur)"
  let ?cur' = "overwrite cur (q + k) ?bs"
  let ?arr1 = "?bs @ drop b arr"
  let ?res = "\<lparr>content = take p cur @ replicate k 0x5F @ take (q + b - p) (drop p cur)
                                @ drop (q + b + k) cur,
                pos = p + k\<rparr>"
  have lb: "length ?bs = b" using less.prems by simp
  have m: "min (length cur - q) b = b" using less.prems by simp
  have rd: "file_read \<lparr>content = cur, pos = q\<rparr> b = ((?bs, None), \<lparr>content = cur, pos = q + b\<rparr>)"
    using less.prems(2) file_read_full [of "\<lparr>content = cur, pos = q\<rparr>" b] by simp
  have s1: "file_seek \<lparr>content = cur, pos = q + b\<rparr> (int k - int b) SeekCurrent
             = ((int q + int k, None), \<lparr>content = cur, pos = q + k\<rparr>)"
    using file_seek_cur [of "\<lparr>content = cur, pos = q + b\<rparr>" "int k - int b"]
    by (simp add: nat_add_distrib)
  have w1: "file_write \<lparr>content = cur, pos = q + k\<rparr> ?bs
             = ((int b, None), \<lparr>content = ?cur', pos = q + k + b\<rparr>)"
    using less.prems(3) file_write_le [of "\<lparr>content = cur, pos = q + k\<rparr>" ?bs] lb by simp
  have s2: "file_seek \<lparr>content = ?cur', pos = q + k + b\<rparr> (- int b - int k) SeekCurrent
             = ((int q, None), \<lparr>content = ?cur', pos = q\<rparr>)"
    using file_seek_cur [of "\<lparr>content = ?cur', pos = q + k + b\<rparr>" "- int b - int k"] by simp
  have la: "length ?arr1 = length arr" using lb less.prems(5) by simp
  have l': "length cur \<le> length ?cur'" using less.prems(3) lb by (simp add: overwrite_def)
  have step: "take p ?cur' @ replicate k 0x5F @ take (q - p) (drop p ?cur') @ drop (q + k) ?cur'
       = take p cur @ replicate k 0x5F @ take (q + b - p) (drop p cur) @ drop (q + b + k) cur"
    using less.prems(1,2,3) by (rule shift_right_step)
  have rest: "(if int b \<le> int q - int p
               then ShiftFileRight_loop (int k) (int p) ?arr1 (int b) False
                      (snd (file_seek \<lparr>content = ?cur', pos = q\<rparr> (- int b) SeekCurrent))
               else (let rw4 = snd (file_seek \<lparr>content = ?cur', pos = q\<rparr>
                                      (- (int q - int p)) SeekCurrent)
                     in if int q - int p < 0 then Some (Panicked rw4)
                        else ShiftFileRight_loop (int k) (int p) ?arr1 (int q - int p) True rw4))
              = Some (Done ?res)"
  proof (cases "b \<le> q - p")
    case True
    have s3: "snd (file_seek \<lparr>content = ?cur', pos = q\<rparr> (- int b) SeekCurrent)
                 = \<lparr>content = ?cur', pos = q - b\<rparr>"
      using True less.prems(1) file_seek_cur [of "\<lparr>content = ?cur', pos = q\<rparr>" "- int b"]
      by (simp add: nat_diff_distrib)
    have "ShiftFileRight_loop (int k) (int p) ?arr1 (int b) False \<lparr>content = ?cur', pos = q - b\<rparr>
       = Some (Done \<lparr>content = take p ?cur' @ replicate k 0x5F
                                  @ take (q - b + b - p) (drop p ?cur') @ drop (q - b + b + k) ?cur',
                      pos = p + k\<rparr>)"
      using True less.prems l' la by (intro less.hyps) simp_all
    moreover have "int b \<le> int q - int p" using True less.prems(1) by linarith
    ultimately show ?thesis using True less.prems(1) by (simp add: s3 step)
  next
    case False
    have s3: "snd (file_seek \<lparr>content = ?cur', pos = q\<rparr> (int p - int q) SeekCurrent)
                 = \<lparr>content = ?cur', pos = p\<rparr>"
      using less.prems(1) file_seek_cur [of "\<lparr>content = ?cur', pos = q\<rparr>" "int p - int q"]
      by simp
    have e: "int q - int p = int (q - p)" using less.prems(1) by simp
    have "ShiftFileRight_loop (int k) (int p) ?arr1 (int (q - p)) True \<lparr>content = ?cur', pos = p\<rparr>
       = Some (Done \<lparr>content = take p ?cur' @ replicate k 0x5F @ take (q - p) (drop p ?cur')
                                  @ drop (p + (q - p) + k) ?cur',
                      pos = p + k\<rparr>)"
      using False less.prems l' la by (intro ShiftFileRight_loop_stop) simp_all
    moreover have "\<not> int b \<le> int q - int p" using False less.prems(1) by linarith
    ultimately show ?thesis using less.prems(1) by (simp add: s3 step Let_def of_nat_diff)
  qed
  show ?case
    apply (subst ShiftFileRight_loop.simps)
    apply (simp only: nat_int rd fst_conv snd_conv lb)
    apply (simp only: minus_add_distrib [symmetric] uminus_add_conv_diff Let_def)
    apply (simp add: rd m s1 w1 s2 Let_def del: One_nat_def)
    using rest less.prems(1)
    apply (simp add: Let_def split: if_splits)
    done
qed


lemma ShiftFileRight_closed:
  assumes "p \<le> length c" and "k \<le> 100" and "k \<le> length c - p"
  shows "ShiftFileRight \<lparr>content = c, pos = p\<rparr> (int k)
     = Some (Done \<lparr>content = take p c @ replicate k 0x5F @ drop p c, pos = p\<rparr>)"
proof -
  let ?rw = "\<lparr>content = c, pos = p\<rparr>"
  have o: "fst (fst (file_seek ?rw 0 SeekCurrent)) = int p"
    by (simp add: file_seek_def Let_def)
  have e: "file_seek ?rw 0 SeekEnd = ((int (length c), None), \<lparr>content = c, pos = length c\<rparr>)"
    by (simp add: file_seek_def Let_def)
  have r1: "snd (file_seek \<lparr>content = c, pos = length c\<rparr> (int p) SeekStart) = ?rw"
    by (simp add: file_seek_def Let_def)
  have sk: "snd (file_seek \<lparr>content = x, pos = y\<rparr> (int p) SeekStart) = \<lparr>content = x, pos = p\<rparr>"
    for x y
    by (simp add: file_seek_def Let_def)
  show ?thesis
  proof (cases "length c - p < 100")
    case True
    define b where "b = length c - p"
    have small: "int (length c) - int p < 100" using True assms(1) by simp
    have bs: "int (length c) - int p = int b" using assms(1) by (simp add: b_def)
    have r2: "snd (file_seek ?rw (- int b) SeekEnd) = ?rw"
      using assms(1) by (simp add: file_seek_def Let_def b_def)
    have "ShiftFileRight_loop (int k) (int p) (replicate b 0) (int b) True ?rw
       = Some (Done \<lparr>content = take p c @ replicate k 0x5F @ take b (drop p c)
                                  @ drop (p + b + k) c,
                      pos = p + k\<rparr>)"
      using assms by (intro ShiftFileRight_loop_stop) (simp_all add: b_def)
    moreover have "take b (drop p c) @ drop (p + b + k) c = drop p c"
      using assms(1) by (simp add: b_def)
    ultimately show ?thesis
      unfolding ShiftFileRight_def Let_def o e fst_conv snd_conv r1
      using small by (simp add: bs r2 sk)
  next
    case False
    define q where "q = length c - 100"
    have big: "\<not> int (length c) - int p < 100" using False assms(1) by simp
    have ge: "100 \<le> length c" using False by simp
    then have "nat (int (length c) - 100) = length c - 100" by simp
    with ge have r2: "snd (file_seek ?rw (- 100) SeekEnd) = \<lparr>content = c, pos = q\<rparr>"
      by (simp add: file_seek_def Let_def q_def)
    have "ShiftFileRight_loop (int k) (int p) (replicate 100 0) (int 100) False
            \<lparr>content = c, pos = q\<rparr>
       = Some (Done \<lparr>content = take p c @ replicate k 0x5F @ take (q + 100 - p) (drop p c)
                                  @ drop (q + 100 + k) c,
                      pos = p + k\<rparr>)"
      using assms False by (intro ShiftFileRight_loop_run) (simp_all add: q_def)
    moreover have "take (q + 100 - p) (drop p c) @ drop (q + 100 + k) c = drop p c"
      using False by (simp add: q_def)
    ultimately show ?thesis
      unfolding ShiftFileRight_def Let_def o e fst_conv snd_conv r1
      using big by (simp add: r2 sk)
  qed
qed


subsection \<open>When the offset is larger than the buffer\<close>

lemma length_file_read: "length (fst (fst (file_read f k))) \<le> k"
  by (simp add: file_read_def Let_def)

lemma ShiftFileRight_loop_stop_panics:
  assumes "b \<le> length arr" and "length arr < k"
  shows "\<exists>rw'. ShiftFileRight_loop (int k) op arr (int b) True rw = Some (Panicked rw')"
proof -
  have "length (fst (fst (file_read rw b))) \<le> length arr"
    using length_file_read [of rw b] assms(1) by simp
  then have "length (fst (fst (file_read rw b)) @ drop (length (fst (fst (file_read rw b)))) arr)
               = length arr"
    by simp
  with assms(2) show ?thesis
    by (subst ShiftFileRight_loop.simps) (simp add: Let_def)
qed

lemma file_write_pos:
  "\<exists>c'. snd (file_write \<lparr>content = c, pos = q\<rparr> bs) = \<lparr>content = c', pos = q + length bs\<rparr>
          \<and> length c \<le> length c'"
  by (auto simp add: file_write_def Let_def)

lemma ShiftFileRight_loop_run_panics:
  assumes "p \<le> q" and "q + b \<le> length cur" and "0 < b" and "b \<le> length arr"
    and "length arr < k"
  shows "\<exists>rw'. ShiftFileRight_loop (int k) (int p) arr (int b) False \<lparr>content = cur, pos = q\<rparr>
            = Some (Panicked rw')"
  using assms
proof (induction "q - p" arbitrary: q cur arr rule: less_induct)
  case less
  let ?bs = "take b (drop q cur)"
  let ?arr1 = "?bs @ drop b arr"
  have lb: "length ?bs = b" using less.prems by simp
  have m: "min (length cur - q) b = b" using less.prems by simp
  have rd: "file_read \<lparr>content = cur, pos = q\<rparr> b = ((?bs, None), \<lparr>content = cur, pos = q + b\<rparr>)"
    using less.prems(2) file_read_full [of "\<lparr>content = cur, pos = q\<rparr>" b] by simp
  have s1: "file_seek \<lparr>content = cur, pos = q + b\<rparr> (int k - int b) SeekCurrent
             = ((int q + int k, None), \<lparr>content = cur, pos = q + k\<rparr>)"
    using file_seek_cur [of "\<lparr>content = cur, pos = q + b\<rparr>" "int k - int b"]
    by (simp add: nat_add_distrib)
  from file_write_pos [of cur "q + k" ?bs] lb obtain cur'
    where w1: "snd (file_write \<lparr>content = cur, pos = q + k\<rparr> ?bs)
                 = \<lparr>content = cur', pos = q + k + b\<rparr>"
      and l': "length cur \<le> length cur'"
    by auto
  have s2: "file_seek \<lparr>content = cur', pos = q + k + b\<rparr> (- int b - int k) SeekCurrent
             = ((int q, None), \<lparr>content = cur', pos = q\<rparr>)"
    using file_seek_cur [of "\<lparr>content = cur', pos = q + k + b\<rparr>" "- int b - int k"] by simp
  have la: "length ?arr1 = length arr" using lb less.prems(4) by simp
  have rest: "\<exists>rw'. (if int b \<le> int q - int p
               then ShiftFileRight_loop (int k) (int p) ?arr1 (int b) False
                      (snd (file_seek \<lparr>content = cur', pos = q\<rparr> (- int b) SeekCurrent))
               else (let rw4 = snd (file_seek \<lparr>content = cur', pos = q\<rparr>
                                      (int p - int q) SeekCurrent)
                     in if int q - int p < 0 then Some (Panicked rw4)
                        else ShiftFileRight_loop (int k) (int p) ?arr1 (int q - int p) True rw4))
              = Some (Panicked rw')"
  proof (cases "b \<le> q - p")
    case True
    have s3: "snd (file_seek \<lparr>content = cur', pos = q\<rparr> (- int b) SeekCurrent)
                 = \<lparr>content = cur', pos = q - b\<rparr>"
      using True less.prems(1) file_seek_cur [of "\<lparr>content = cur', pos = q\<rparr>" "- int b"]
      by (simp add: nat_diff_distrib)
    have "\<exists>rw'. ShiftFileRight_loop (int k) (int p) ?arr1 (int b) False \<lparr>content = cur', pos = q - b\<rparr>
            = Some (Panicked rw')"
      using True less.prems l' la by (intro less.hyps) simp_all
    moreover have "int b \<le> int q - int p" using True less.prems(1) by linarith
    ultimately show ?thesis by (simp add: s3)
  next
    case False
    have "\<exists>rw'. ShiftFileRight_loop (int k) (int p) ?arr1 (int (q - p)) True
                  (snd (file_seek \<lparr>content = cur', pos = q\<rparr> (int p - int q) SeekCurrent))
            = Some (Panicked rw')"
      using False less.prems la by (intro ShiftFileRight_loop_stop_panics) simp_all
    moreover have "\<not> int b \<le> int q - int p" "\<not> int q - int p < 0"
      using False less.prems(1) by linarith+
    ultimately show ?thesis using less.prems(1) by (simp add: Let_def of_nat_diff)
  qed
  show ?case
    apply (subst ShiftFileRight_loop.simps)
    apply (simp only: nat_int rd fst_conv snd_conv lb)
    apply (simp only: minus_add_distrib [symmetric] uminus_add_conv_diff Let_def)
    apply (simp add: rd m s1 w1 s2 Let_def del: One_nat_def)
    using rest less.prems(1)
    apply (simp add: Let_def split: if_splits)
    done
qed


lemma ShiftFileRight_panics:
  assumes "0 \<le> offset" and "min 100 (int (length c) - int p) < offset"
  shows "\<exists>rw'. ShiftFileRight \<lparr>content = c, pos = p\<rparr> offset = Some (Panicked rw')"
proof -
  let ?rw = "\<lparr>content = c, pos = p\<rparr>"
  define k where "k = nat offset"
  have k: "offset = int k" using assms(1) by (simp add: k_def)
  have o: "fst (fst (file_seek ?rw 0 SeekCurrent)) = int p"
    by (simp add: file_seek_def Let_def)
  have e: "file_seek ?rw 0 SeekEnd = ((int (length c), None), \<lparr>content = c, pos = length c\<rparr>)"
    by (simp add: file_seek_def Let_def)
  have r1: "snd (file_seek \<lparr>content = c, pos = length c\<rparr> (int p) SeekStart) = ?rw"
    by (simp add: file_seek_def Let_def)
  consider "length c < p" | "p \<le> length c" "length c - p < 100" | "100 \<le> length c - p"
    by linarith
  then show ?thesis
  proof cases
    case 1
    then have "int (length c) - int p < 100" "int (length c) - int p < 0" by simp_all
    then show ?thesis
      unfolding ShiftFileRight_def Let_def o e fst_conv snd_conv r1 by simp
  next
    case 2
    define b where "b = length c - p"
    have small: "int (length c) - int p < 100" "\<not> int (length c) - int p < 0"
      using 2 by simp_all
    have bs: "int (length c) - int p = int b" using 2 by (simp add: b_def)
    have r2: "snd (file_seek ?rw (- int b) SeekEnd) = ?rw"
      using 2 by (simp add: file_seek_def Let_def b_def)
    have "b < k" using assms(2) 2 by (simp add: k b_def)
    then have "\<exists>rw'. ShiftFileRight_loop (int k) (int p) (replicate b 0) (int b) True ?rw
       = Some (Panicked rw')"
      by (intro ShiftFileRight_loop_stop_panics) simp_all
    then obtain rw' where
      "ShiftFileRight_loop (int k) (int p) (replicate b 0) (int b) True ?rw = Some (Panicked rw')" ..
    then show ?thesis
      unfolding ShiftFileRight_def Let_def o e fst_conv snd_conv r1 k
      using small by (simp add: bs r2)
  next
    case 3
    define q where "q = length c - 100"
    have big: "\<not> int (length c) - int p < 100" using 3 by simp
    have ge: "100 \<le> length c" using 3 by simp
    then have "nat (int (length c) - 100) = length c - 100" by simp
    with ge have r2: "snd (file_seek ?rw (- 100) SeekEnd) = \<lparr>content = c, pos = q\<rparr>"
      by (simp add: file_seek_def Let_def q_def)
    have "100 < k" using assms(2) 3 by (simp add: k)
    then have "\<exists>rw'. ShiftFileRight_loop (int k) (int p) (replicate 100 0) (int 100) False
            \<lparr>content = c, pos = q\<rparr> = Some (Panicked rw')"
      using 3 by (intro ShiftFileRight_loop_run_panics) (simp_all add: q_def)
    then obtain rw' where
      "ShiftFileRight_loop (int k) (int p) (replicate 100 0) (int 100) False
            \<lparr>content = c, pos = q\<rparr> = Some (Panicked rw')" ..
    then show ?thesis
      unfolding ShiftFileRight_def Let_def o e fst_conv snd_conv r1 k
      using big by (simp add: r2)
  qed
qed

text \<open>For an offset that is not negative, the call returns when the offset fits and panics when it does not.\<close>

lemma ShiftFileRight_nonneg_offset:
  assumes "0 \<le> offset"
  shows "((\<exists>rw'. ShiftFileRight rw offset = Some (Done rw'))
            \<longleftrightarrow> offset \<le> min 100 (int (length (content rw)) - int (pos rw)))
       \<and> (min 100 (int (length (content rw)) - int (pos rw)) < offset
            \<longrightarrow> (\<exists>rw'. ShiftFileRight rw offset = Some (Panicked rw')))"
proof (cases "offset \<le> min 100 (int (length (content rw)) - int (pos rw))")
  case True
  define k where "k = nat offset"
  have k: "offset = int k" using assms by (simp add: k_def)
  from True have "pos rw \<le> length (content rw)" "k \<le> 100" "k \<le> length (content rw) - pos rw"
    using assms unfolding k by linarith+
  from ShiftFileRight_closed [OF this]
  have "\<exists>rw'. ShiftFileRight rw offset = Some (Done rw')"
    by (cases rw) (simp add: k)
  moreover from True have "\<not> min 100 (int (length (content rw)) - int (pos rw)) < offset"
    by linarith
  ultimately show ?thesis using True by blast
next
  case False
  then have lt: "min 100 (int (length (content rw)) - int (pos rw)) < offset" by linarith
  from ShiftFileRight_panics [OF assms, of "content rw" "pos rw"] lt
  obtain rw' where "ShiftFileRight rw offset = Some (Panicked rw')"
    by (cases rw) auto
  with False lt show ?thesis by auto
qed

subsection \<open>When the offset is negative, or the cursor is past the end\<close>

text \<open>With a negative offset the loop can only end in the panic of \<^verbatim>\<open>buf[:offset]\<close>.\<close>

lemma ShiftFileRight_loop_negative:
  assumes "ShiftFileRight_loop offset originalPosition arr bufLen64 stop rw = Some y"
  shows "offset < 0 \<longrightarrow> (\<exists>rw'. y = Panicked rw')"
proof (rule ShiftFileRight_loop.raw_induct
         [where P = "\<lambda>offset originalPosition arr bufLen64 stop rw y.
                       offset < 0 \<longrightarrow> (\<exists>rw'. y = Panicked rw')",
          OF _ assms])
  fix f :: "int \<Rightarrow> int \<Rightarrow> byte list \<Rightarrow> int \<Rightarrow> bool \<Rightarrow> osfile \<Rightarrow> shift_result option"
  fix offset originalPosition arr bufLen64 stop rw y
  assume ih: "\<And>offset originalPosition arr bufLen64 stop rw y.
                f offset originalPosition arr bufLen64 stop rw = Some y \<Longrightarrow>
                offset < 0 \<longrightarrow> (\<exists>rw'. y = Panicked rw')"
  assume step: "(let rd = file_read rw (nat bufLen64);
          arr1 = fst (fst rd) @ drop (length (fst (fst rd))) arr;
          rw1 = snd (file_seek (snd rd) (- bufLen64 + offset) SeekCurrent);
          rw2 = snd (file_write rw1 (take (nat bufLen64) arr1))
      in if stop
         then let rw3 = snd (file_seek rw2 (- bufLen64 - offset) SeekCurrent)
              in if offset < 0 \<or> int (length arr1) < offset
                 then Some (Panicked rw3)
                 else let arr2 = replicate (nat offset) 95 @ drop (nat offset) arr1
                      in Some (Done (snd (file_write rw3 (take (nat offset) arr2))))
         else let s = file_seek rw2 (- bufLen64 - offset) SeekCurrent;
                  curPos = fst (fst s)
              in if bufLen64 \<le> curPos - originalPosition
                 then f offset originalPosition arr1 bufLen64 stop
                       (snd (file_seek (snd s) (- bufLen64) SeekCurrent))
                 else let rw4 = snd (file_seek (snd s) (- (curPos - originalPosition)) SeekCurrent)
                      in if curPos - originalPosition < 0
                         then Some (Panicked rw4)
                         else f offset originalPosition arr1 (curPos - originalPosition) True rw4)
          = Some y"
  show "offset < 0 \<longrightarrow> (\<exists>rw'. y = Panicked rw')"
  proof
    assume neg: "offset < 0"
    from step neg show "\<exists>rw'. y = Panicked rw'"
      by (auto simp: Let_def split: if_splits dest: ih)
  qed
qed

lemma ShiftFileRight_negative:
  assumes "offset < 0"
  shows "ShiftFileRight rw offset \<noteq> Some (Done rw')"
proof
  assume d: "ShiftFileRight rw offset = Some (Done rw')"
  then show False
    using assms
    by (auto simp: ShiftFileRight_def Let_def
             split: if_splits option.splits shift_result.splits
             dest!: ShiftFileRight_loop_negative)
qed

text \<open>With the cursor past the end of the file, \<^verbatim>\<open>make\<close> gets a negative size and panics.\<close>

lemma ShiftFileRight_cursor_past_end:
  assumes "length (content rw) < pos rw"
  shows "\<exists>rw'. ShiftFileRight rw offset = Some (Panicked rw')"
proof -
  have o: "fst (fst (file_seek rw 0 SeekCurrent)) = int (pos rw)"
    by (simp add: file_seek_def Let_def)
  have e: "fst (fst (file_seek rw 0 SeekEnd)) = int (length (content rw))"
    by (simp add: file_seek_def Let_def)
  from assms have "int (length (content rw)) - int (pos rw) < 100"
    "int (length (content rw)) - int (pos rw) < 0" by simp_all
  then show ?thesis
    unfolding ShiftFileRight_def Let_def o e by simp
qed

text \<open>
  Claim C10, as the code has it. The buffer is made with \<open>min(100, fileSize - cursor)\<close>
  bytes, and the last step reslices it to \<^verbatim>\<open>buf[:offset]\<close>, which needs
  \<open>0 \<le> offset \<le> cap(buf)\<close>. \<^verbatim>\<open>ShiftFileRight\<close> returns exactly when the offset is at
  least 0 and at most \<open>min(100, fileSize - cursor)\<close>; for every offset above that bound it
  panics. A negative offset is within the bound of the claim and never lets the call
  return.
\<close>

theorem ShiftFileRight_returns_iff_offset_in_range:
  "((\<exists>rw'. ShiftFileRight rw offset = Some (Done rw'))
      \<longleftrightarrow> 0 \<le> offset \<and> offset \<le> min 100 (int (length (content rw)) - int (pos rw)))
   \<and> (min 100 (int (length (content rw)) - int (pos rw)) < offset
        \<longrightarrow> (\<exists>rw'. ShiftFileRight rw offset = Some (Panicked rw')))"
proof (cases "0 \<le> offset")
  case True
  from ShiftFileRight_nonneg_offset [OF True, of rw] True show ?thesis by simp
next
  case False
  then have neg: "offset < 0" by simp
  have a: "\<not> (\<exists>rw'. ShiftFileRight rw offset = Some (Done rw'))"
    using ShiftFileRight_negative [OF neg, of rw] by simp
  have b: "\<exists>rw'. ShiftFileRight rw offset = Some (Panicked rw')"
    if "min 100 (int (length (content rw)) - int (pos rw)) < offset"
  proof -
    from that neg have "length (content rw) < pos rw" by linarith
    then show ?thesis by (rule ShiftFileRight_cursor_past_end)
  qed
  from a b False show ?thesis by blast
qed

text \<open>
  The witness: five bytes with the cursor at 1, so that the buffer has four bytes. The
  offset 4 fits and the call returns; the offset 5 does not and the call panics; with the
  offset \<open>-1\<close> the call does not return.
\<close>

theorem ShiftFileRight_returns_iff_offset_in_range_witness:
  "(\<exists>rw'. ShiftFileRight \<lparr>content = [1, 2, 3, 4, 5], pos = 1\<rparr> 4 = Some (Done rw'))
   \<and> (\<exists>rw'. ShiftFileRight \<lparr>content = [1, 2, 3, 4, 5], pos = 1\<rparr> 5 = Some (Panicked rw'))
   \<and> \<not> (\<exists>rw'. ShiftFileRight \<lparr>content = [1, 2, 3, 4, 5], pos = 1\<rparr> (- 1) = Some (Done rw'))"
  using ShiftFileRight_returns_iff_offset_in_range [of "\<lparr>content = [1, 2, 3, 4, 5], pos = 1\<rparr>" 4]
        ShiftFileRight_returns_iff_offset_in_range [of "\<lparr>content = [1, 2, 3, 4, 5], pos = 1\<rparr>" 5]
        ShiftFileRight_returns_iff_offset_in_range [of "\<lparr>content = [1, 2, 3, 4, 5], pos = 1\<rparr>" "- 1"]
  by simp

text \<open>
  The claim as stated, that the call is free of panics exactly when the offset is at most
  \<open>min(100, fileSize - cursor)\<close>, fails for a negative offset: on five bytes with the
  cursor at 1, the offset \<open>-1\<close> is below the bound 4, and the call panics on
  \<^verbatim>\<open>buf[:offset]\<close>.
\<close>

theorem ShiftFileRight_negative_offset_counterexample:
  "(- 1 :: int) \<le> min 100 (int (length [1, 2, 3, 4, 5 :: byte]) - int 1)
   \<and> ShiftFileRight \<lparr>content = [1, 2, 3, 4, 5], pos = 1\<rparr> (- 1)
       = Some (Panicked \<lparr>content = [2, 3, 4, 5, 5], pos = 1\<rparr>)"
proof -
  have "ShiftFileRight \<lparr>content = [1, 2, 3, 4, 5], pos = 1\<rparr> (- 1)
          = Some (Panicked \<lparr>content = [2, 3, 4, 5, 5], pos = 1\<rparr>)"
    by code_simp
  then show ?thesis by simp
qed

text \<open>
  Claim C3. \<^verbatim>\<open>ShiftFileRight\<close> is documented to move everything after the cursor by
  \<open>offset\<close> bytes, for any offset. On five bytes with the cursor at 1 and the offset 5 it
  moves the four bytes, leaving a hole of zero bytes, and then panics on
  \<^verbatim>\<open>buf[:offset]\<close>, whose capacity is 4: it does not return.
\<close>

theorem ShiftFileRight_panics_on_large_offset:
  "ShiftFileRight \<lparr>content = [1, 2, 3, 4, 5], pos = 1\<rparr> 5
     = Some (Panicked \<lparr>content = [1, 2, 3, 4, 5, 0, 2, 3, 4, 5], pos = 1\<rparr>)"
  by code_simp


section \<open>Shifting left, then right\<close>

text \<open>
  Claim C5, as the code has it. Let the offset be positive and at most
  \<open>min(100, S - p)\<close> for a file of \<open>S\<close> bytes with the cursor at \<open>p\<close>. Then
  \<^verbatim>\<open>ShiftFileLeft\<close> followed by \<^verbatim>\<open>ShiftFileRight\<close> with the same offset returns with
  the cursor at \<open>p\<close>, and every byte below \<open>S\<close> outside the gap \<open>[p, p + offset)\<close> is the
  original byte; the gap holds \<open>offset\<close> bytes \<^verbatim>\<open>'_'\<close>. The file is \<open>offset\<close> bytes
  longer than the original: the left shift does not truncate, so the last \<open>offset\<close> bytes
  of the original come once more after position \<open>S\<close>.
\<close>

theorem ShiftFileLeft_then_Right:
  assumes "0 < offset"
    and "offset \<le> min 100 (int (length (content rw)) - int (pos rw))"
  shows "\<exists>rw1 rw2.
           ShiftFileLeft rw offset = Some (None, rw1)
         \<and> ShiftFileRight rw1 offset = Some (Done rw2)
         \<and> pos rw2 = pos rw
         \<and> length (content rw2) = length (content rw) + nat offset
         \<and> (\<forall>i<length (content rw). i < pos rw \<or> pos rw + nat offset \<le> i
                \<longrightarrow> content rw2 ! i = content rw ! i)
         \<and> (\<forall>i<nat offset. content rw2 ! (pos rw + i) = 0x5F)
         \<and> (\<forall>i<nat offset. content rw2 ! (length (content rw) + i)
                = content rw ! (length (content rw) - nat offset + i))"
proof -
  define k where "k = nat offset"
  define c where "c = content rw"
  define p where "p = pos rw"
  define c1 where "c1 = closed_left c p k"
  define c2 where "c2 = take p c1 @ replicate k 0x5F @ drop p c1"
  have k: "offset = int k" using assms(1) by (simp add: k_def)
  have rw: "rw = \<lparr>content = c, pos = p\<rparr>" by (simp add: c_def p_def)
  from assms have b: "p \<le> length c" "k \<le> 100" "k \<le> length c - p" "0 < k"
    unfolding k c_def p_def by linarith+
  have l1: "length c1 = length c" by (simp add: c1_def length_closed_left)
  have left: "ShiftFileLeft rw offset = Some (None, \<lparr>content = c1, pos = p\<rparr>)"
    unfolding rw k c1_def by (rule ShiftFileLeft_closed)
  have right: "ShiftFileRight \<lparr>content = c1, pos = p\<rparr> offset
                 = Some (Done \<lparr>content = c2, pos = p\<rparr>)"
    unfolding k c2_def using b l1 by (intro ShiftFileRight_closed) simp_all
  have l2: "length c2 = length c + k" using b l1 by (simp add: c2_def)
  have n1: "c1 ! i = (if p \<le> i \<and> i + k < length c then c ! (i + k) else c ! i)"
    if "i < length c" for i
    unfolding c1_def using that by (rule nth_closed_left)
  have before: "c2 ! i = c ! i" if "i < p" for i
    using that b l1 n1 [of i] by (simp add: c2_def nth_append)
  have gap: "c2 ! (p + i) = 0x5F" if "i < k" for i
    using that b l1 by (simp add: c2_def nth_append)
  have after: "c2 ! i = c1 ! (i - k)" if "p + k \<le> i" "i < length c + k" for i
  proof -
    have "i - p - k + p = i - k" "\<not> i < p" "\<not> i - p < k" using that by simp_all
    with that b l1 show ?thesis by (simp add: c2_def nth_append)
  qed
  have mid: "c2 ! i = c ! i" if "p + k \<le> i" "i < length c" for i
  proof -
    from that have "c2 ! i = c1 ! (i - k)" by (intro after) simp_all
    also have "\<dots> = c ! i"
    proof -
      from that have "i - k < length c" "p \<le> i - k" "i - k + k = i" by simp_all
      with that n1 [of "i - k"] show ?thesis by simp
    qed
    finally show ?thesis .
  qed
  have tail: "c2 ! (length c + i) = c ! (length c - k + i)" if "i < k" for i
  proof -
    from that b have "c2 ! (length c + i) = c1 ! (length c + i - k)" by (intro after) simp_all
    also have "length c + i - k = length c - k + i" using b by simp
    also have "c1 ! (length c - k + i) = c ! (length c - k + i)"
      using that b n1 [of "length c - k + i"] by simp
    finally show ?thesis .
  qed
  show ?thesis
    using left right l2 before gap mid tail
    unfolding c_def [symmetric] p_def [symmetric] k_def [symmetric]
    by (intro exI [of _ "\<lparr>content = c1, pos = p\<rparr>"] exI [of _ "\<lparr>content = c2, pos = p\<rparr>"])
       auto
qed

theorem ShiftFileLeft_then_Right_witness:
  "\<exists>rw1 rw2.
     ShiftFileLeft \<lparr>content = [1, 2, 3, 4, 5], pos = 1\<rparr> 2 = Some (None, rw1)
   \<and> ShiftFileRight rw1 2 = Some (Done rw2)
   \<and> pos rw2 = 1 \<and> length (content rw2) = 7
   \<and> content rw2 ! 0 = 1 \<and> content rw2 ! 1 = 0x5F \<and> content rw2 ! 2 = 0x5F
   \<and> content rw2 ! 3 = 4 \<and> content rw2 ! 4 = 5
   \<and> content rw2 ! 5 = 4 \<and> content rw2 ! 6 = 5"
proof -
  let ?rw = "\<lparr>content = [1, 2, 3, 4, 5 :: byte], pos = 1\<rparr>"
  have a: "(0::int) < 2" by simp
  have b: "(2::int) \<le> min 100 (int (length (content ?rw)) - int (pos ?rw))" by simp
  from ShiftFileLeft_then_Right [OF a b]
  obtain rw1 rw2 where r: "ShiftFileLeft ?rw 2 = Some (None, rw1)"
      "ShiftFileRight rw1 2 = Some (Done rw2)" "pos rw2 = pos ?rw"
      "length (content rw2) = length (content ?rw) + nat 2"
    and keep: "\<forall>i<length (content ?rw). i < pos ?rw \<or> pos ?rw + nat 2 \<le> i
                \<longrightarrow> content rw2 ! i = content ?rw ! i"
    and gap: "\<forall>i<nat 2. content rw2 ! (pos ?rw + i) = 0x5F"
    and tail: "\<forall>i<nat 2. content rw2 ! (length (content ?rw) + i)
                = content ?rw ! (length (content ?rw) - nat 2 + i)"
    by blast
  have vals: "content rw2 ! 0 = 1" "content rw2 ! 1 = 0x5F" "content rw2 ! 2 = 0x5F"
    "content rw2 ! 3 = 4" "content rw2 ! 4 = 5" "content rw2 ! 5 = 4" "content rw2 ! 6 = 5"
    using keep [rule_format, of 0] keep [rule_format, of 3] keep [rule_format, of 4]
       gap [rule_format, of 0] gap [rule_format, of 1]
       tail [rule_format, of 0] tail [rule_format, of 1]
    by (simp_all add: numeral_eq_Suc)
  from r vals show ?thesis by simp
qed

text \<open>
  The claim as stated, the original restored but for the gap, fails on five bytes with the
  cursor at 1 and the offset 2: the result has seven bytes.
\<close>

theorem ShiftFileLeft_then_Right_counterexample:
  "ShiftFileLeft \<lparr>content = [1, 2, 3, 4, 5], pos = 1\<rparr> 2
     = Some (None, \<lparr>content = [1, 4, 5, 4, 5], pos = 1\<rparr>)
   \<and> ShiftFileRight \<lparr>content = [1, 4, 5, 4, 5], pos = 1\<rparr> 2
     = Some (Done \<lparr>content = [1, 0x5F, 0x5F, 4, 5, 4, 5], pos = 1\<rparr>)
   \<and> length [1, 0x5F, 0x5F, 4, 5, 4, 5 :: byte] \<noteq> length [1, 2, 3, 4, 5 :: byte]"
proof -
  have "replicate 2 (0x5F :: byte) = [0x5F, 0x5F]" by (simp add: numeral_2_eq_2)
  with ShiftFileLeft_closed [of "[1, 2, 3, 4, 5]" 1 2]
       ShiftFileRight_closed [of 1 "[1, 4, 5, 4, 5]" 2]
  show ?thesis by (simp add: closed_left_def)
qed


end
